theory Spec2Isabelle
  imports Complex_Main "HOL-Library.Word" "HOL-Library.Signed_Division"
begin

section \<open>Machine integers and durations\<close>

text \<open>
  Go's \<open>int\<close> and \<open>int64\<close> are 64-bit two's-complement integers on the platforms the
  service is built for, and \<open>time.Duration\<close> is an \<open>int64\<close> count of nanoseconds.
  Addition wraps; comparison and division are signed, division truncating towards zero.
\<close>

type_synonym int64 = "64 word"
type_synonym Duration = "64 word"

definition go_div :: "int64 \<Rightarrow> int64 \<Rightarrow> int64" where
  "go_div x y = word_of_int (sint x sdiv sint y)"

definition go_gt0 :: "int64 \<Rightarrow> bool" where
  "go_gt0 x = (0 < sint x)"

section \<open>Strings: \<open>strings.Join\<close>, decimal integers, \<open>fmt.Sprintf\<close>, \<open>strconv.Atoi\<close>\<close>

text \<open>
  A Go string is a sequence of bytes: \<open>string\<close>. The library functions the cache
  uses are modelled by what they compute on the operands the repository gives them.
\<close>

fun Join :: "string list \<Rightarrow> string \<Rightarrow> string" where
  "Join [] sep = []"
| "Join (e # es) sep = e @ concat (map (\<lambda>s. sep @ s) es)"

definition digit :: "nat \<Rightarrow> char" where
  "digit d = ''0123456789'' ! d"

fun utoa :: "nat \<Rightarrow> string" where
  "utoa n = (if n < 10 then [digit n] else utoa (n div 10) @ [digit (n mod 10)])"

declare utoa.simps [simp del]

text \<open>\<open>strconv.FormatInt(i, 10)\<close>, which is also what \<open>%d\<close> prints.\<close>

definition Itoa :: "int64 \<Rightarrow> string" where
  "Itoa i = (if sint i < 0 then CHR ''-'' # utoa (nat (- sint i)) else utoa (nat (sint i)))"

text \<open>
  \<open>fmt.Sprintf\<close> for string and integer operands. The verbs modelled are \<open>%s\<close>,
  \<open>%d\<close>, \<open>%v\<close> and \<open>%%\<close>, together with the texts Go prints for a verb that does not
  fit its operand, a missing operand, a format ending in \<open>%\<close> and operands left over.
  Flags, widths and the other verbs do not occur in the repository's formats.
\<close>

datatype arg = AString string | AInt int64

fun arg_type :: "arg \<Rightarrow> string" where
  "arg_type (AString s) = ''string''"
| "arg_type (AInt i) = ''int''"

fun arg_text :: "arg \<Rightarrow> string" where
  "arg_text (AString s) = s"
| "arg_text (AInt i) = Itoa i"

fun verb_fits :: "char \<Rightarrow> arg \<Rightarrow> bool" where
  "verb_fits v (AString s) = (v = CHR ''s'' \<or> v = CHR ''v'')"
| "verb_fits v (AInt i) = (v = CHR ''d'' \<or> v = CHR ''v'')"

definition print_verb :: "char \<Rightarrow> arg \<Rightarrow> string" where
  "print_verb v a =
     (if verb_fits v a then arg_text a
      else ''%!'' @ [v] @ ''('' @ arg_type a @ ''='' @ arg_text a @ '')'')"

fun Sprintf :: "string \<Rightarrow> arg list \<Rightarrow> string" where
  "Sprintf [] [] = []"
| "Sprintf [] (a # as) =
     ''%!(EXTRA '' @ Join (map (\<lambda>x. arg_type x @ ''='' @ arg_text x) (a # as)) '', '' @ '')''"
| "Sprintf (c # fmt) as =
     (if c \<noteq> CHR ''%'' then c # Sprintf fmt as
      else (case fmt of
              [] \<Rightarrow> ''%!(NOVERB)'' @ Sprintf [] as
            | v # rest \<Rightarrow>
                if v = CHR ''%'' then CHR ''%'' # Sprintf rest as
                else (case as of
                        [] \<Rightarrow> ''%!'' @ [v] @ ''(MISSING)'' @ Sprintf rest []
                      | a # as' \<Rightarrow> print_verb v a @ Sprintf rest as')))"

text \<open>
  Go's \<open>error\<close> values: the sentinel \<open>redis.Nil\<close>, the two errors of \<open>strconv.Atoi\<close>
  (carrying the text that failed to parse), and any other error (network, database,
  JSON), named by its message.
\<close>

datatype error = redis_Nil | ErrSyntax string | ErrRange string | Failure string

definition is_digit :: "char \<Rightarrow> bool" where
  "is_digit c = (48 \<le> (of_char c :: nat) \<and> (of_char c :: nat) \<le> 57)"

definition digit_val :: "char \<Rightarrow> nat" where
  "digit_val c = of_char c - 48"

definition atou :: "string \<Rightarrow> nat" where
  "atou ds = foldl (\<lambda>n c. 10 * n + digit_val c) 0 ds"

text \<open>
  \<open>strconv.ParseUint(s, 10, 0)\<close>: the digits are read from the left. A byte that is not
  a decimal digit is a syntax error; a value that no longer fits 64 bits is a range
  error at the digit where it stops fitting, with the largest value as result, whatever
  follows that digit.
\<close>

definition maxUint64 :: nat where
  "maxUint64 = 18446744073709551615"

fun ParseUint_loop :: "string \<Rightarrow> string \<Rightarrow> nat \<Rightarrow> nat \<times> error option" where
  "ParseUint_loop s0 [] n = (n, None)"
| "ParseUint_loop s0 (c # cs) n =
     (if \<not> is_digit c then (0, Some (ErrSyntax s0))
      else if maxUint64 div 10 + 1 \<le> n then (maxUint64, Some (ErrRange s0))
      else if maxUint64 < n * 10 + digit_val c then (maxUint64, Some (ErrRange s0))
      else ParseUint_loop s0 cs (n * 10 + digit_val c))"

definition ParseUint :: "string \<Rightarrow> nat \<times> error option" where
  "ParseUint s = (if s = [] then (0, Some (ErrSyntax s)) else ParseUint_loop s s 0)"

text \<open>
  \<open>strconv.ParseInt(s, 10, 0)\<close>: an optional sign, then \<open>ParseUint\<close> on the rest. A
  syntax error is passed on, naming the whole text; a value outside the \<open>int\<close> range is a
  range error, with the nearest bound as result.
\<close>

definition ParseInt :: "string \<Rightarrow> int64 \<times> error option" where
  "ParseInt s =
     (case s of
        [] \<Rightarrow> (0, Some (ErrSyntax s))
      | c # cs \<Rightarrow>
          (let neg = (c = CHR ''-'');
               (un, err) = ParseUint (if c = CHR ''+'' \<or> c = CHR ''-'' then cs else s)
           in case err of
                Some (ErrSyntax num) \<Rightarrow> (0, Some (ErrSyntax s))
              | _ \<Rightarrow>
                  if \<not> neg \<and> 2 ^ 63 \<le> un then (word_of_int (2 ^ 63 - 1), Some (ErrRange s))
                  else if neg \<and> 2 ^ 63 < un then (word_of_int (- (2 ^ 63)), Some (ErrRange s))
                  else (if neg then - of_nat un else of_nat un, None)))"

text \<open>
  \<open>strconv.Atoi\<close>. A text of fewer than 19 bytes cannot overflow and is read directly: an
  optional sign, then one or more decimal digits. Any other text goes to \<open>ParseInt\<close>.
\<close>

definition Atoi :: "string \<Rightarrow> int64 \<times> error option" where
  "Atoi s =
     (if 0 < length s \<and> length s < 19 then
        (let ds = (if hd s = CHR ''-'' \<or> hd s = CHR ''+'' then tl s else s)
         in if ds = [] then (0, Some (ErrSyntax s))
            else if \<not> list_all is_digit ds then (0, Some (ErrSyntax s))
            else (if hd s = CHR ''-'' then - of_nat (atou ds) else of_nat (atou ds), None))
      else ParseInt s)"

section \<open>Key derivation\<close>

definition productListKey :: "string list \<Rightarrow> string \<Rightarrow> int64 \<Rightarrow> int64 \<Rightarrow> string" where
  "productListKey tags order pageNum pageSize =
     (let tagsStr = Join tags '','';
          tagsStr = (if tagsStr = [] then ''all'' else tagsStr)
      in Sprintf ''catalogue:products:%s:order:%s:page:%d:size:%d''
           [AString tagsStr, AString order, AInt pageNum, AInt pageSize])"

definition productKey :: "string \<Rightarrow> string" where
  "productKey ident = Sprintf ''catalogue:product:%s'' [AString ident]"

definition countKey :: "string list \<Rightarrow> string" where
  "countKey tags =
     (let tagsStr = Join tags '','';
          tagsStr = (if tagsStr = [] then ''all'' else tagsStr)
      in Sprintf ''catalogue:count:%s'' [AString tagsStr])"

definition tagsKey :: string where
  "tagsKey = ''catalogue:tags:all''"

text \<open>
  The tags part of a key in the specification's words: the tags joined by commas, or
  \<open>all\<close> when that text is empty.
\<close>

fun comma_joined :: "string list \<Rightarrow> string" where
  "comma_joined [] = []"
| "comma_joined [t] = t"
| "comma_joined (t # ts) = t @ '','' @ comma_joined ts"

definition tags_or_all :: "string list \<Rightarrow> string" where
  "tags_or_all tags = (if comma_joined tags = [] then ''all'' else comma_joined tags)"

text \<open>
  Tag lists on which joining loses nothing: no tag is empty or contains the separator,
  and the list is not the single tag \<open>all\<close>. \<open>colon_free\<close> excludes the separator of
  the key's fields.
\<close>

definition joinable :: "string list \<Rightarrow> bool" where
  "joinable tags = ((\<forall>t \<in> set tags. t \<noteq> [] \<and> CHR '','' \<notin> set t) \<and> tags \<noteq> [''all''])"

definition colon_free :: "string list \<Rightarrow> bool" where
  "colon_free tags = (\<forall>t \<in> set tags. CHR '':'' \<notin> set t)"


section \<open>The metrics recorder\<close>

text \<open>
  \<open>CacheMetrics\<close> without its mutex and logger: every method runs under the
  lock, so each is one atomic step on the counters.
\<close>

record CacheMetrics =
  totalRequests :: int64
  cacheHits :: int64
  cacheMisses :: int64
  cacheErrors :: int64
  totalResponseTime :: Duration
  cacheResponseTime :: Duration
  dbResponseTime :: Duration
  listRequests :: int64
  getRequests :: int64
  countRequests :: int64
  tagsRequests :: int64

definition NewCacheMetrics :: CacheMetrics where
  "NewCacheMetrics =
     \<lparr>totalRequests = 0, cacheHits = 0, cacheMisses = 0, cacheErrors = 0,
      totalResponseTime = 0, cacheResponseTime = 0, dbResponseTime = 0,
      listRequests = 0, getRequests = 0, countRequests = 0, tagsRequests = 0\<rparr>"

definition incrementOperationCounter :: "string \<Rightarrow> CacheMetrics \<Rightarrow> CacheMetrics" where
  "incrementOperationCounter operation m =
     (if operation = ''List'' then m\<lparr>listRequests := listRequests m + 1\<rparr>
      else if operation = ''Get'' then m\<lparr>getRequests := getRequests m + 1\<rparr>
      else if operation = ''Count'' then m\<lparr>countRequests := countRequests m + 1\<rparr>
      else if operation = ''Tags'' then m\<lparr>tagsRequests := tagsRequests m + 1\<rparr>
      else m)"

definition RecordCacheHit :: "string \<Rightarrow> Duration \<Rightarrow> CacheMetrics \<Rightarrow> CacheMetrics" where
  "RecordCacheHit operation duration m =
     incrementOperationCounter operation
       (m\<lparr>totalRequests := totalRequests m + 1,
          cacheHits := cacheHits m + 1,
          totalResponseTime := totalResponseTime m + duration,
          cacheResponseTime := cacheResponseTime m + duration\<rparr>)"

definition RecordCacheMiss :: "string \<Rightarrow> Duration \<Rightarrow> CacheMetrics \<Rightarrow> CacheMetrics" where
  "RecordCacheMiss operation duration m =
     incrementOperationCounter operation
       (m\<lparr>totalRequests := totalRequests m + 1,
          cacheMisses := cacheMisses m + 1,
          totalResponseTime := totalResponseTime m + duration,
          dbResponseTime := dbResponseTime m + duration\<rparr>)"

definition RecordCacheError :: "string \<Rightarrow> Duration \<Rightarrow> CacheMetrics \<Rightarrow> CacheMetrics" where
  "RecordCacheError operation duration m =
     incrementOperationCounter operation
       (m\<lparr>totalRequests := totalRequests m + 1,
          cacheErrors := cacheErrors m + 1,
          totalResponseTime := totalResponseTime m + duration,
          dbResponseTime := dbResponseTime m + duration\<rparr>)"

text \<open>
  \<open>HitRatio\<close> is a \<open>float64\<close>. The three floating-point operations the snapshot uses
  (conversion from \<open>int64\<close>, division, multiplication) are taken as parameters, so that
  what is proved holds for IEEE arithmetic as for any other reading of them.
\<close>

record 'f float64_ops =
  of_int64 :: "int64 \<Rightarrow> 'f"
  fdiv :: "'f \<Rightarrow> 'f \<Rightarrow> 'f"
  fmul :: "'f \<Rightarrow> 'f \<Rightarrow> 'f"

record 'f MetricsSnapshot =
  TotalRequests :: int64
  CacheHits :: int64
  CacheMisses :: int64
  CacheErrors :: int64
  HitRatio :: 'f
  AvgResponseTime :: Duration
  AvgCacheResponseTime :: Duration
  AvgDbResponseTime :: Duration
  ListRequests :: int64
  GetRequests :: int64
  CountRequests :: int64
  TagsRequests :: int64

definition GetMetrics :: "'f float64_ops \<Rightarrow> CacheMetrics \<Rightarrow> 'f MetricsSnapshot" where
  "GetMetrics fl m =
     (let hitRatio =
            (if go_gt0 (totalRequests m)
             then fmul fl (fdiv fl (of_int64 fl (cacheHits m)) (of_int64 fl (totalRequests m)))
                          (of_int64 fl 100)
             else of_int64 fl 0);
          avgResponseTime =
            (if go_gt0 (totalRequests m)
             then go_div (totalResponseTime m) (totalRequests m) else 0);
          avgCacheResponseTime =
            (if go_gt0 (cacheHits m)
             then go_div (cacheResponseTime m) (cacheHits m) else 0);
          dbRequests = cacheMisses m + cacheErrors m;
          avgDbResponseTime =
            (if go_gt0 dbRequests then go_div (dbResponseTime m) dbRequests else 0)
      in \<lparr>TotalRequests = totalRequests m,
          CacheHits = cacheHits m,
          CacheMisses = cacheMisses m,
          CacheErrors = cacheErrors m,
          HitRatio = hitRatio,
          AvgResponseTime = avgResponseTime,
          AvgCacheResponseTime = avgCacheResponseTime,
          AvgDbResponseTime = avgDbResponseTime,
          ListRequests = listRequests m,
          GetRequests = getRequests m,
          CountRequests = countRequests m,
          TagsRequests = tagsRequests m\<rparr>)"

text \<open>A sequence of recorder calls, for stating properties of whole runs.\<close>

datatype outcome = Hit | Miss | Error

type_synonym sample = "outcome \<times> string \<times> Duration"

fun record_sample :: "CacheMetrics \<Rightarrow> sample \<Rightarrow> CacheMetrics" where
  "record_sample m (Hit, operation, d) = RecordCacheHit operation d m"
| "record_sample m (Miss, operation, d) = RecordCacheMiss operation d m"
| "record_sample m (Error, operation, d) = RecordCacheError operation d m"

definition record_all :: "CacheMetrics \<Rightarrow> sample list \<Rightarrow> CacheMetrics" where
  "record_all m ss = foldl record_sample m ss"

definition samples_of :: "outcome \<Rightarrow> sample list \<Rightarrow> sample list" where
  "samples_of k ss = filter (\<lambda>s. fst s = k) ss"

definition durations :: "sample list \<Rightarrow> Duration list" where
  "durations ss = map (\<lambda>s. snd (snd s)) ss"

section \<open>The world the cache layer runs in\<close>

text \<open>
  Modelled from the spec: the declaration of \<open>Sock\<close> is not among the sources. The
  specification describes a catalogue item as a record with at least an identifier, a
  display name and tags; the cache layer reads \<open>ID\<close> and \<open>Name\<close> only.
\<close>

record Sock =
  ID :: string
  Name :: string
  Tags :: "string list"

definition Sock_zero :: Sock where
  "Sock_zero = \<lparr>ID = [], Name = [], Tags = []\<rparr>"

text \<open>
  The \<open>Service\<close> interface (the authoritative service), as the results it gives. A Go
  call returns a value together with an error, and the callers here pass both on.
\<close>

record Service =
  svc_List :: "string list \<Rightarrow> string \<Rightarrow> int64 \<Rightarrow> int64 \<Rightarrow> Sock list \<times> error option"
  svc_Count :: "string list \<Rightarrow> int64 \<times> error option"
  svc_Get :: "string \<Rightarrow> Sock \<times> error option"
  svc_Tags :: "string list \<times> error option"

datatype redis_cmd = GET string | SET string string Duration | DEL string

datatype call =
    ListCall "string list" string int64 int64
  | CountCall "string list"
  | GetCall string
  | TagsCall

datatype lval = LStr string | LErr error | LStrs "string list" | LInt int64 | LDur Duration

text \<open>What the layer does to the outside, in order: Redis commands, calls of the
  authoritative service, log records.\<close>

datatype event = Redis redis_cmd | Call call | Logged "(string \<times> lval) list"

text \<open>A goroutine started with \<open>go\<close>: it runs later, or concurrently, on its own.\<close>

datatype task =
    SetProductsTask "string list" string int64 int64 "Sock list"
  | SetCountTask "string list" int64
  | SetProductTask string Sock
  | SetTagsTask "string list"
  | WarmTagsTask
  | WarmProductListingsTask
  | WarmIndividualProductsTask

text \<open>
  What the surroundings decide: the authoritative service, which Redis commands fail
  (connection loss, timeout) and with which error, how long each outside action takes,
  and \<open>encoding/json\<close> on the three payload types (its behaviour on \<open>Sock\<close> depends on
  the missing declaration, so it is a parameter).
\<close>

record env =
  service :: Service
  fault :: "redis_cmd \<Rightarrow> error option"
  latency :: "event \<Rightarrow> Duration"
  Marshal_products :: "Sock list \<Rightarrow> error + string"
  Unmarshal_products :: "string \<Rightarrow> error + Sock list"
  Marshal_product :: "Sock \<Rightarrow> error + string"
  Unmarshal_product :: "string \<Rightarrow> error + Sock"
  Marshal_tags :: "string list \<Rightarrow> error + string"
  Unmarshal_tags :: "string \<Rightarrow> error + string list"

record world =
  store :: "string \<rightharpoonup> string"
  metrics :: CacheMetrics
  trace :: "event list"
  now :: Duration
  goroutines :: "task list"

definition emit :: "env \<Rightarrow> event \<Rightarrow> world \<Rightarrow> world" where
  "emit env e w = w\<lparr>trace := trace w @ [e], now := now w + latency env e\<rparr>"

definition logger_Log :: "env \<Rightarrow> (string \<times> lval) list \<Rightarrow> world \<Rightarrow> world" where
  "logger_Log env keyvals w = emit env (Logged keyvals) w"

definition Milliseconds :: "Duration \<Rightarrow> int64" where
  "Milliseconds d = go_div d 1000000"

definition go :: "task \<Rightarrow> world \<Rightarrow> world" where
  "go t w = w\<lparr>goroutines := goroutines w @ [t]\<rparr>"

subsection \<open>The Redis client\<close>

definition client_Get :: "env \<Rightarrow> string \<Rightarrow> world \<Rightarrow> (string \<times> error option) \<times> world" where
  "client_Get env key w =
     (let w = emit env (Redis (GET key)) w
      in case fault env (GET key) of
           Some e \<Rightarrow> (([], Some e), w)
         | None \<Rightarrow> (case store w key of
                      None \<Rightarrow> (([], Some redis_Nil), w)
                    | Some val \<Rightarrow> ((val, None), w)))"

definition client_Set :: "env \<Rightarrow> string \<Rightarrow> string \<Rightarrow> Duration \<Rightarrow> world \<Rightarrow> error option \<times> world" where
  "client_Set env key val ttl w =
     (let w = emit env (Redis (SET key val ttl)) w
      in case fault env (SET key val ttl) of
           Some e \<Rightarrow> (Some e, w)
         | None \<Rightarrow> (None, w\<lparr>store := (store w)(key \<mapsto> val)\<rparr>))"

definition client_Del :: "env \<Rightarrow> string \<Rightarrow> world \<Rightarrow> error option \<times> world" where
  "client_Del env key w =
     (let w = emit env (Redis (DEL key)) w
      in case fault env (DEL key) of
           Some e \<Rightarrow> (Some e, w)
         | None \<Rightarrow> (None, w\<lparr>store := (store w)(key := None)\<rparr>))"

text \<open>\<open>c.ttl\<close>: 30 minutes, in nanoseconds.\<close>

definition ttl :: Duration where
  "ttl = 30 * 60000000000"

section \<open>\<open>encoding/json\<close>: the encoding side\<close>

text \<open>
  \<open>json.Marshal\<close> of a \<open>[]string\<close> needs no declaration of the repository, so the text
  it writes is modelled here, as of the Go release the module names (1.21). A string is
  written between quotes; the ASCII bytes other than the quote, the backslash, the
  control characters and \<open>< > &\<close> stand for themselves, those are escaped; a well-formed
  multi-byte UTF-8 sequence stands for itself (U+2028 and U+2029 are escaped); any other
  byte is written as the escape of the replacement character U+FFFD.
\<close>

definition hex_digit :: "nat \<Rightarrow> char" where
  "hex_digit d = ''0123456789abcdef'' ! d"

definition html_safe :: "char \<Rightarrow> bool" where
  "html_safe c =
     (32 \<le> (of_char c :: nat) \<and> (of_char c :: nat) < 128
      \<and> c \<noteq> CHR 0x22 \<and> c \<noteq> CHR 0x5C \<and> c \<noteq> CHR ''<'' \<and> c \<noteq> CHR ''>'' \<and> c \<noteq> CHR ''&'')"

definition escape_ascii :: "char \<Rightarrow> string" where
  "escape_ascii c =
     (if html_safe c then [c]
      else if c = CHR 0x5C \<or> c = CHR 0x22 then [CHR 0x5C, c]
      else if c = CHR 0x0A then [CHR 0x5C, CHR ''n'']
      else if c = CHR 0x0D then [CHR 0x5C, CHR ''r'']
      else if c = CHR 0x09 then [CHR 0x5C, CHR ''t'']
      else [CHR 0x5C, CHR ''u'', CHR ''0'', CHR ''0'',
            hex_digit (of_char c div 16), hex_digit (of_char c mod 16)])"

text \<open>
  \<open>utf8.DecodeRuneInString\<close>, as far as the encoder asks: the length of the well-formed
  multi-byte sequence at the head of the text, if there is one.
\<close>

definition continuation :: "char \<Rightarrow> bool" where
  "continuation c = (0x80 \<le> (of_char c :: nat) \<and> (of_char c :: nat) \<le> 0xBF)"

definition second_byte_ok :: "nat \<Rightarrow> nat \<Rightarrow> bool" where
  "second_byte_ok x y =
     (if x = 0xE0 then 0xA0 \<le> y \<and> y \<le> 0xBF
      else if x = 0xED then 0x80 \<le> y \<and> y \<le> 0x9F
      else if x = 0xF0 then 0x90 \<le> y \<and> y \<le> 0xBF
      else if x = 0xF4 then 0x80 \<le> y \<and> y \<le> 0x8F
      else 0x80 \<le> y \<and> y \<le> 0xBF)"

definition multi_byte :: "string \<Rightarrow> nat option" where
  "multi_byte s =
     (case s of
        b0 # b1 # rest \<Rightarrow>
          (let x = (of_char b0 :: nat); y = (of_char b1 :: nat)
           in if 0xC2 \<le> x \<and> x \<le> 0xDF then (if second_byte_ok x y then Some 2 else None)
              else if 0xE0 \<le> x \<and> x \<le> 0xEF then
                (case rest of
                   b2 # rest' \<Rightarrow> if second_byte_ok x y \<and> continuation b2 then Some 3 else None
                 | [] \<Rightarrow> None)
              else if 0xF0 \<le> x \<and> x \<le> 0xF4 then
                (case rest of
                   b2 # b3 # rest' \<Rightarrow>
                     if second_byte_ok x y \<and> continuation b2 \<and> continuation b3 then Some 4 else None
                 | _ \<Rightarrow> None)
              else None)
      | _ \<Rightarrow> None)"

fun escape_string :: "string \<Rightarrow> string" where
  "escape_string [] = []"
| "escape_string (c # cs) =
     (if (of_char c :: nat) < 128 then escape_ascii c @ escape_string cs
      else (case multi_byte (c # cs) of
              None \<Rightarrow> [CHR 0x5C, CHR ''u'', CHR ''f'', CHR ''f'', CHR ''f'', CHR ''d'']
                       @ escape_string cs
            | Some n \<Rightarrow>
                if take n (c # cs) = [CHR 0xE2, CHR 0x80, CHR 0xA8] then
                  [CHR 0x5C, CHR ''u'', CHR ''2'', CHR ''0'', CHR ''2'', CHR ''8'']
                  @ escape_string (drop (n - 1) cs)
                else if take n (c # cs) = [CHR 0xE2, CHR 0x80, CHR 0xA9] then
                  [CHR 0x5C, CHR ''u'', CHR ''2'', CHR ''0'', CHR ''2'', CHR ''9'']
                  @ escape_string (drop (n - 1) cs)
                else take n (c # cs) @ escape_string (drop (n - 1) cs)))"

definition json_string :: "string \<Rightarrow> string" where
  "json_string s = [CHR 0x22] @ escape_string s @ [CHR 0x22]"

text \<open>
  What the encoder keeps of a string: the text in which every byte that is not part of
  well-formed UTF-8 is replaced by U+FFFD. \<open>ValidString\<close> is \<open>utf8.ValidString\<close>: the
  strings the encoder keeps as they are.
\<close>

definition RuneError :: string where
  "RuneError = [CHR 0xEF, CHR 0xBF, CHR 0xBD]"

fun coerce_utf8 :: "string \<Rightarrow> string" where
  "coerce_utf8 [] = []"
| "coerce_utf8 (c # cs) =
     (if (of_char c :: nat) < 128 then c # coerce_utf8 cs
      else (case multi_byte (c # cs) of
              None \<Rightarrow> RuneError @ coerce_utf8 cs
            | Some n \<Rightarrow> take n (c # cs) @ coerce_utf8 (drop (n - 1) cs)))"

fun ValidString :: "string \<Rightarrow> bool" where
  "ValidString [] = True"
| "ValidString (c # cs) =
     (if (of_char c :: nat) < 128 then ValidString cs
      else (case multi_byte (c # cs) of
              None \<Rightarrow> False
            | Some n \<Rightarrow> ValidString (drop (n - 1) cs)))"

text \<open>
  A list stands for a Go slice, and the empty list for the empty slice and for the nil
  slice alike: the cache never asks which of the two it holds. \<open>json.Marshal\<close> does: it
  writes an empty slice as \<open>[]\<close> and the nil slice as \<open>null\<close>. So the text of a list
  is given together with what the list does not say, whether the slice is nil. Encoding
  strings never fails.
\<close>

definition strings_text :: "string list \<Rightarrow> string" where
  "strings_text tags = ''['' @ Join (map json_string tags) '','' @ '']''"

definition strings_text_as :: "bool \<Rightarrow> string list \<Rightarrow> string" where
  "strings_text_as nil tags = (if nil \<and> tags = [] then ''null'' else strings_text tags)"

text \<open>The encoder on a slice that is not nil.\<close>

definition json_Marshal_tags :: "string list \<Rightarrow> error + string" where
  "json_Marshal_tags tags = Inr (strings_text tags)"

text \<open>
  Modelled from the spec: the declaration of \<open>Sock\<close> is not among the sources, so its
  JSON form is that of a struct with the three fields the specification names and no
  field tags: an object whose members have the names of the fields, in their order.
  \<open>nil\<close> says whether the slice of its tags is nil.
\<close>

definition member_name :: "string \<Rightarrow> string" where
  "member_name name = [CHR 0x22] @ name @ [CHR 0x22, CHR '':'']"

definition Sock_text_as :: "bool \<Rightarrow> Sock \<Rightarrow> string" where
  "Sock_text_as nil p =
     ''{'' @ member_name ''ID'' @ json_string (ID p)
     @ '','' @ member_name ''Name'' @ json_string (Name p)
     @ '','' @ member_name ''Tags'' @ strings_text_as nil (Tags p) @ ''}''"

definition Sock_text :: "Sock \<Rightarrow> string" where
  "Sock_text p = Sock_text_as False p"

definition json_Marshal_product :: "Sock \<Rightarrow> error + string" where
  "json_Marshal_product p = Inr (Sock_text p)"

text \<open>A list of products, with whether its slice is nil and, for each product in turn,
  whether the slice of its tags is.\<close>

definition Socks_text_as :: "bool \<Rightarrow> bool list \<Rightarrow> Sock list \<Rightarrow> string" where
  "Socks_text_as nil nils ps =
     (if nil \<and> ps = [] then ''null''
      else ''['' @ Join (map (\<lambda>(n, p). Sock_text_as n p) (zip nils ps)) '','' @ '']'')"

definition Socks_text :: "Sock list \<Rightarrow> string" where
  "Socks_text ps = ''['' @ Join (map Sock_text ps) '','' @ '']''"

definition json_Marshal_products :: "Sock list \<Rightarrow> error + string" where
  "json_Marshal_products ps = Inr (Socks_text ps)"

text \<open>The value read back for a \<open>Sock\<close> written: each of its strings as the encoder
  keeps it.\<close>

definition coerce_Sock :: "Sock \<Rightarrow> Sock" where
  "coerce_Sock p =
     \<lparr>ID = coerce_utf8 (ID p), Name = coerce_utf8 (Name p), Tags = map coerce_utf8 (Tags p)\<rparr>"

definition ValidSock :: "Sock \<Rightarrow> bool" where
  "ValidSock p = (ValidString (ID p) \<and> ValidString (Name p) \<and> list_all ValidString (Tags p))"

section \<open>\<open>encoding/json\<close>: the decoding side\<close>

text \<open>
  \<open>json.Unmarshal\<close> first runs its scanner over the whole text (\<open>checkValid\<close>), which
  accepts a text of the JSON grammar and rejects any other with a syntax error, and then
  stores the value read into the Go variable, where a JSON value that does not fit the
  type of the variable is a type error. The scanner is modelled as the state machine it
  is, one step per byte; the model also keeps the value it has read so far, so that the
  second pass is a function of that value. The model is of the library as of Go 1.21,
  the release the module names.
\<close>

datatype json =
    JNull
  | JBool bool
  | JNumber
  | JString string
  | JArray "json list"
  | JObject "(string \<times> json) list"

subsection \<open>String literals: \<open>unquote\<close>\<close>

definition is_hex :: "char \<Rightarrow> bool" where
  "is_hex c =
     (is_digit c
      \<or> (97 \<le> (of_char c :: nat) \<and> (of_char c :: nat) \<le> 102)
      \<or> (65 \<le> (of_char c :: nat) \<and> (of_char c :: nat) \<le> 70))"

definition hex_val :: "char \<Rightarrow> nat" where
  "hex_val c =
     (if is_digit c then of_char c - 48
      else if 97 \<le> (of_char c :: nat) then of_char c - 87
      else of_char c - 55)"

text \<open>\<open>getu4\<close>: the number a \<open>\u\<close> escape at the head of the text names, if there is
  one.\<close>

fun getu4 :: "string \<Rightarrow> nat option" where
  "getu4 (b # u # h1 # h2 # h3 # h4 # rest) =
     (if b = CHR 0x5C \<and> u = CHR ''u'' \<and> is_hex h1 \<and> is_hex h2 \<and> is_hex h3 \<and> is_hex h4
      then Some (((hex_val h1 * 16 + hex_val h2) * 16 + hex_val h3) * 16 + hex_val h4)
      else None)"
| "getu4 s = None"

text \<open>\<open>utf8.EncodeRune\<close>.\<close>

definition EncodeRune :: "nat \<Rightarrow> string" where
  "EncodeRune r =
     (if r < 0x80 then [char_of r]
      else if r < 0x800 then [char_of (0xC0 + r div 64), char_of (0x80 + r mod 64)]
      else if (0xD800 \<le> r \<and> r < 0xE000) \<or> 0x10FFFF < r then RuneError
      else if r < 0x10000 then
        [char_of (0xE0 + r div 4096), char_of (0x80 + r div 64 mod 64), char_of (0x80 + r mod 64)]
      else
        [char_of (0xF0 + r div 262144), char_of (0x80 + r div 4096 mod 64),
         char_of (0x80 + r div 64 mod 64), char_of (0x80 + r mod 64)])"

text \<open>\<open>utf16.IsSurrogate\<close> and \<open>utf16.DecodeRune\<close> (\<open>None\<close> for the replacement
  character it gives for anything but a pair).\<close>

definition IsSurrogate :: "nat \<Rightarrow> bool" where
  "IsSurrogate r = (0xD800 \<le> r \<and> r < 0xE000)"

definition utf16_DecodeRune :: "nat \<Rightarrow> nat option \<Rightarrow> nat option" where
  "utf16_DecodeRune r1 r2 =
     (case r2 of
        None \<Rightarrow> None
      | Some r2 \<Rightarrow>
          if 0xD800 \<le> r1 \<and> r1 < 0xDC00 \<and> 0xDC00 \<le> r2 \<and> r2 < 0xE000
          then Some ((r1 - 0xD800) * 1024 + (r2 - 0xDC00) + 0x10000)
          else None)"

definition unescape :: "char \<Rightarrow> char option" where
  "unescape c =
     (if c = CHR 0x22 \<or> c = CHR 0x5C \<or> c = CHR ''/'' \<or> c = CHR 0x27 then Some c
      else if c = CHR ''b'' then Some (CHR 0x08)
      else if c = CHR ''f'' then Some (CHR 0x0C)
      else if c = CHR ''n'' then Some (CHR 0x0A)
      else if c = CHR ''r'' then Some (CHR 0x0D)
      else if c = CHR ''t'' then Some (CHR 0x09)
      else None)"

text \<open>
  \<open>unquoteBytes\<close>, on the bytes between the quotes: escapes are replaced by what they
  stand for (a \<open>\u\<close> pair of surrogates by the character of the pair, a lone surrogate by
  U+FFFD), and bytes that are not well-formed UTF-8 by U+FFFD each. \<open>None\<close> is its
  \<open>ok = false\<close>, for a text the scanner would not have accepted.
\<close>

fun unquote :: "string \<Rightarrow> string option" where
  "unquote [] = Some []"
| "unquote (c # cs) =
     (if c = CHR 0x5C then
        (case cs of
           [] \<Rightarrow> None
         | x # rest \<Rightarrow>
             if x = CHR ''u'' then
               (case getu4 (c # cs) of
                  None \<Rightarrow> None
                | Some rr \<Rightarrow>
                    if IsSurrogate rr then
                      (case utf16_DecodeRune rr (getu4 (drop 4 rest)) of
                         Some dec \<Rightarrow> map_option ((@) (EncodeRune dec)) (unquote (drop 10 rest))
                       | None \<Rightarrow> map_option ((@) RuneError) (unquote (drop 4 rest)))
                    else map_option ((@) (EncodeRune rr)) (unquote (drop 4 rest)))
             else (case unescape x of
                     None \<Rightarrow> None
                   | Some y \<Rightarrow> map_option ((#) y) (unquote rest)))
      else if c = CHR 0x22 \<or> (of_char c :: nat) < 32 then None
      else if (of_char c :: nat) < 128 then map_option ((#) c) (unquote cs)
      else (case multi_byte (c # cs) of
              None \<Rightarrow> map_option ((@) RuneError) (unquote cs)
            | Some n \<Rightarrow> map_option ((@) (take n (c # cs))) (unquote (drop (n - 1) cs))))"

subsection \<open>The scanner\<close>

definition isSpace :: "char \<Rightarrow> bool" where
  "isSpace c = (c = CHR '' '' \<or> c = CHR 0x09 \<or> c = CHR 0x0D \<or> c = CHR 0x0A)"

text \<open>
  The scanner's stack (\<open>parseState\<close>), each entry with the part of the array or object
  read so far: inside an array, inside an object before a key or its colon, inside an
  object after a colon (with the key).
\<close>

datatype frame =
    parseArrayValue "json list"
  | parseObjectKey "(string \<times> json) list"
  | parseObjectValue "(string \<times> json) list" string

text \<open>
  The scanner's step functions. \<open>stateEndValue\<close> carries the value just completed,
  \<open>stateInString\<close> and the escape states the bytes of the literal so far, and
  \<open>stateLit\<close> stands for the states inside \<open>true\<close>, \<open>false\<close> and \<open>null\<close>, with the
  bytes still to come. \<open>stateEndTop\<close> is \<open>stateEndValue\<close> on an empty stack.
\<close>

datatype state =
    stateBeginValue
  | stateBeginValueOrEmpty
  | stateBeginStringOrEmpty
  | stateBeginString
  | stateEndValue json
  | stateInString string
  | stateInStringEsc string
  | stateInStringEscU string nat
  | stateNeg
  | state1
  | state0
  | stateDot
  | stateDot0
  | stateE
  | stateESign
  | stateE0
  | stateLit string json

definition maxNestingDepth :: nat where
  "maxNestingDepth = 10000"

fun end_value :: "json \<Rightarrow> frame list \<Rightarrow> char \<Rightarrow> (state \<times> frame list) option" where
  "end_value v [] c = (if isSpace c then Some (stateEndValue v, []) else None)"
| "end_value v (parseObjectKey ms # fs) c =
     (if isSpace c then Some (stateEndValue v, parseObjectKey ms # fs)
      else if c = CHR '':'' then
        (case v of
           JString k \<Rightarrow> Some (stateBeginValue, parseObjectValue ms k # fs)
         | _ \<Rightarrow> None)
      else None)"
| "end_value v (parseObjectValue ms k # fs) c =
     (if isSpace c then Some (stateEndValue v, parseObjectValue ms k # fs)
      else if c = CHR '','' then Some (stateBeginString, parseObjectKey (ms @ [(k, v)]) # fs)
      else if c = CHR ''}'' then Some (stateEndValue (JObject (ms @ [(k, v)])), fs)
      else None)"
| "end_value v (parseArrayValue es # fs) c =
     (if isSpace c then Some (stateEndValue v, parseArrayValue es # fs)
      else if c = CHR '','' then Some (stateBeginValue, parseArrayValue (es @ [v]) # fs)
      else if c = CHR '']'' then Some (stateEndValue (JArray (es @ [v])), fs)
      else None)"

definition begin_value :: "frame list \<Rightarrow> char \<Rightarrow> (state \<times> frame list) option" where
  "begin_value fs c =
     (if c = CHR ''{'' then
        (if length fs < maxNestingDepth then Some (stateBeginStringOrEmpty, parseObjectKey [] # fs)
         else None)
      else if c = CHR ''['' then
        (if length fs < maxNestingDepth then Some (stateBeginValueOrEmpty, parseArrayValue [] # fs)
         else None)
      else if c = CHR 0x22 then Some (stateInString [], fs)
      else if c = CHR ''-'' then Some (stateNeg, fs)
      else if c = CHR ''0'' then Some (state0, fs)
      else if c = CHR ''t'' then Some (stateLit ''rue'' (JBool True), fs)
      else if c = CHR ''f'' then Some (stateLit ''alse'' (JBool False), fs)
      else if c = CHR ''n'' then Some (stateLit ''ull'' JNull, fs)
      else if is_digit c then Some (state1, fs)
      else None)"

fun step :: "state \<times> frame list \<Rightarrow> char \<Rightarrow> (state \<times> frame list) option" where
  "step (stateBeginValue, fs) c =
     (if isSpace c then Some (stateBeginValue, fs) else begin_value fs c)"
| "step (stateBeginValueOrEmpty, fs) c =
     (if isSpace c then Some (stateBeginValueOrEmpty, fs)
      else if c = CHR '']'' then
        (case fs of
           parseArrayValue es # fs' \<Rightarrow> Some (stateEndValue (JArray es), fs')
         | _ \<Rightarrow> None)
      else begin_value fs c)"
| "step (stateBeginStringOrEmpty, fs) c =
     (if isSpace c then Some (stateBeginStringOrEmpty, fs)
      else if c = CHR ''}'' then
        (case fs of
           parseObjectKey ms # fs' \<Rightarrow> Some (stateEndValue (JObject ms), fs')
         | _ \<Rightarrow> None)
      else if c = CHR 0x22 then Some (stateInString [], fs)
      else None)"
| "step (stateBeginString, fs) c =
     (if isSpace c then Some (stateBeginString, fs)
      else if c = CHR 0x22 then Some (stateInString [], fs)
      else None)"
| "step (stateEndValue v, fs) c = end_value v fs c"
| "step (stateInString lit, fs) c =
     (if c = CHR 0x22 then
        (case unquote lit of
           Some s \<Rightarrow> Some (stateEndValue (JString s), fs)
         | None \<Rightarrow> None)
      else if c = CHR 0x5C then Some (stateInStringEsc (lit @ [c]), fs)
      else if (of_char c :: nat) < 32 then None
      else Some (stateInString (lit @ [c]), fs))"
| "step (stateInStringEsc lit, fs) c =
     (if c = CHR ''b'' \<or> c = CHR ''f'' \<or> c = CHR ''n'' \<or> c = CHR ''r'' \<or> c = CHR ''t''
         \<or> c = CHR 0x5C \<or> c = CHR ''/'' \<or> c = CHR 0x22
      then Some (stateInString (lit @ [c]), fs)
      else if c = CHR ''u'' then Some (stateInStringEscU (lit @ [c]) 0, fs)
      else None)"
| "step (stateInStringEscU lit n, fs) c =
     (if is_hex c then
        (if n < 3 then Some (stateInStringEscU (lit @ [c]) (Suc n), fs)
         else Some (stateInString (lit @ [c]), fs))
      else None)"
| "step (stateNeg, fs) c =
     (if c = CHR ''0'' then Some (state0, fs)
      else if is_digit c then Some (state1, fs)
      else None)"
| "step (state1, fs) c =
     (if is_digit c then Some (state1, fs)
      else if c = CHR ''.'' then Some (stateDot, fs)
      else if c = CHR ''e'' \<or> c = CHR ''E'' then Some (stateE, fs)
      else end_value JNumber fs c)"
| "step (state0, fs) c =
     (if c = CHR ''.'' then Some (stateDot, fs)
      else if c = CHR ''e'' \<or> c = CHR ''E'' then Some (stateE, fs)
      else end_value JNumber fs c)"
| "step (stateDot, fs) c = (if is_digit c then Some (stateDot0, fs) else None)"
| "step (stateDot0, fs) c =
     (if is_digit c then Some (stateDot0, fs)
      else if c = CHR ''e'' \<or> c = CHR ''E'' then Some (stateE, fs)
      else end_value JNumber fs c)"
| "step (stateE, fs) c =
     (if c = CHR ''+'' \<or> c = CHR ''-'' then Some (stateESign, fs)
      else if is_digit c then Some (stateE0, fs)
      else None)"
| "step (stateESign, fs) c = (if is_digit c then Some (stateE0, fs) else None)"
| "step (stateE0, fs) c =
     (if is_digit c then Some (stateE0, fs) else end_value JNumber fs c)"
| "step (stateLit [] v, fs) c = None"
| "step (stateLit (x # xs) v, fs) c =
     (if c \<noteq> x then None
      else if xs = [] then Some (stateEndValue v, fs)
      else Some (stateLit xs v, fs))"

fun run :: "state \<times> frame list \<Rightarrow> string \<Rightarrow> (state \<times> frame list) option" where
  "run s [] = Some s"
| "run s (c # cs) = (case step s c of None \<Rightarrow> None | Some s' \<Rightarrow> run s' cs)"

text \<open>At the end of the text the scanner is given a space; the text is accepted if that
  completes a value at the top level.\<close>

fun eof :: "state \<times> frame list \<Rightarrow> json option" where
  "eof (stateEndValue v, []) = Some v"
| "eof (state1, []) = Some JNumber"
| "eof (state0, []) = Some JNumber"
| "eof (stateDot0, []) = Some JNumber"
| "eof (stateE0, []) = Some JNumber"
| "eof s = None"

definition checkValid :: "string \<Rightarrow> json option" where
  "checkValid data =
     (case run (stateBeginValue, []) data of
        None \<Rightarrow> None
      | Some s \<Rightarrow> eof s)"

subsection \<open>Storing the value into a Go variable\<close>

text \<open>
  A list stands for a Go slice and the empty list also for the nil slice. When an array
  is stored into a slice that already holds elements, each element is stored into the
  element already at its place, and the places of the backing array beyond the new
  length keep what they hold; \<open>null\<close> leaves a string as it is. So storing into a slice
  takes the backing array before and gives the slice and the backing array after.
  \<open>None\<close> is a type error: the text is refused (the decoder goes on to the end of the
  text and then returns its first type error).
\<close>

fun elements_into :: "string list \<Rightarrow> json list \<Rightarrow> string list option" where
  "elements_into backing [] = Some []"
| "elements_into backing (e # es) =
     (case (case e of
              JString s \<Rightarrow> Some s
            | JNull \<Rightarrow> Some (case backing of [] \<Rightarrow> [] | old # olds \<Rightarrow> old)
            | _ \<Rightarrow> None) of
        None \<Rightarrow> None
      | Some s \<Rightarrow> map_option ((#) s) (elements_into (drop 1 backing) es))"

definition into_strings :: "string list \<Rightarrow> json \<Rightarrow> (string list \<times> string list) option" where
  "into_strings backing v =
     (case v of
        JNull \<Rightarrow> Some ([], [])
      | JArray es \<Rightarrow>
          (if es = [] then Some ([], [])
           else map_option (\<lambda>tags. (tags, tags @ drop (length tags) backing))
                  (elements_into backing es))
      | _ \<Rightarrow> None)"

definition into_string :: "string \<Rightarrow> json \<Rightarrow> string option" where
  "into_string old v =
     (case v of
        JNull \<Rightarrow> Some old
      | JString s \<Rightarrow> Some s
      | _ \<Rightarrow> None)"

text \<open>
  \<open>foldName\<close>, by which an object key that is not the name of a field is matched to
  one: ASCII letters are folded to upper case, and so are the two characters outside
  ASCII that fold to an ASCII letter (U+017F to \<open>S\<close>, U+212A to \<open>K\<close>). Every other
  character is left as it is here; \<open>foldName\<close> folds it to a character outside ASCII,
  which no field name of \<open>Sock\<close> contains.
\<close>

fun foldName :: "string \<Rightarrow> string" where
  "foldName [] = []"
| "foldName (c # cs) =
     (if 97 \<le> (of_char c :: nat) \<and> (of_char c :: nat) \<le> 122
      then char_of ((of_char c :: nat) - 32) # foldName cs
      else if take 2 (c # cs) = [CHR 0xC5, CHR 0xBF] then CHR ''S'' # foldName (drop 1 cs)
      else if take 3 (c # cs) = [CHR 0xE2, CHR 0x84, CHR 0xAA] then CHR ''K'' # foldName (drop 2 cs)
      else c # foldName cs)"

text \<open>
  Modelled from the spec: the declaration of \<open>Sock\<close> is not among the sources, so its
  JSON form is that of a struct with the three fields the specification names and no
  field tags. The members of the object have the names of the fields; on reading, a key
  is matched to the field of that name or else to the field of the same folded name,
  and a key that matches no field is skipped with its value.
\<close>

datatype Sock_field = field_ID | field_Name | field_Tags

definition field_names :: "(string \<times> Sock_field) list" where
  "field_names = [(''ID'', field_ID), (''Name'', field_Name), (''Tags'', field_Tags)]"

definition field_of :: "string \<Rightarrow> Sock_field option" where
  "field_of key =
     (case map_of field_names key of
        Some f \<Rightarrow> Some f
      | None \<Rightarrow> map_of (map (\<lambda>(name, f). (foldName name, f)) field_names) (foldName key))"

text \<open>The members of an object are stored one after the other into the struct, which
  is here together with the backing array of its \<open>Tags\<close>.\<close>

fun members_into :: "Sock \<times> string list \<Rightarrow> (string \<times> json) list \<Rightarrow> (Sock \<times> string list) option" where
  "members_into pb [] = Some pb"
| "members_into (p, backing) ((key, v) # ms) =
     (case field_of key of
        None \<Rightarrow> members_into (p, backing) ms
      | Some field_ID \<Rightarrow>
          (case into_string (ID p) v of
             None \<Rightarrow> None
           | Some s \<Rightarrow> members_into (p\<lparr>ID := s\<rparr>, backing) ms)
      | Some field_Name \<Rightarrow>
          (case into_string (Name p) v of
             None \<Rightarrow> None
           | Some s \<Rightarrow> members_into (p\<lparr>Name := s\<rparr>, backing) ms)
      | Some field_Tags \<Rightarrow>
          (case into_strings backing v of
             None \<Rightarrow> None
           | Some (tags, backing') \<Rightarrow> members_into (p\<lparr>Tags := tags\<rparr>, backing') ms))"

definition into_Sock :: "Sock \<Rightarrow> json \<Rightarrow> Sock option" where
  "into_Sock p v =
     (case v of
        JNull \<Rightarrow> Some p
      | JObject ms \<Rightarrow> map_option fst (members_into (p, Tags p) ms)
      | _ \<Rightarrow> None)"

fun into_Socks :: "json list \<Rightarrow> Sock list option" where
  "into_Socks [] = Some []"
| "into_Socks (e # es) =
     (case into_Sock Sock_zero e of
        None \<Rightarrow> None
      | Some p \<Rightarrow> map_option ((#) p) (into_Socks es))"

definition SyntaxError :: error where
  "SyntaxError = Failure ''json.SyntaxError''"

definition UnmarshalTypeError :: error where
  "UnmarshalTypeError = Failure ''json.UnmarshalTypeError''"

text \<open>\<open>json.Unmarshal\<close> into a fresh \<open>[]string\<close>, \<open>Sock\<close> and \<open>[]Sock\<close>. The errors are
  named by their Go type; their message is not modelled.\<close>

definition json_Unmarshal_tags :: "string \<Rightarrow> error + string list" where
  "json_Unmarshal_tags data =
     (case checkValid data of
        None \<Rightarrow> Inl SyntaxError
      | Some v \<Rightarrow>
          (case into_strings [] v of
             None \<Rightarrow> Inl UnmarshalTypeError
           | Some (tags, backing) \<Rightarrow> Inr tags))"

definition json_Unmarshal_product :: "string \<Rightarrow> error + Sock" where
  "json_Unmarshal_product data =
     (case checkValid data of
        None \<Rightarrow> Inl SyntaxError
      | Some v \<Rightarrow>
          (case into_Sock Sock_zero v of
             None \<Rightarrow> Inl UnmarshalTypeError
           | Some p \<Rightarrow> Inr p))"

definition json_Unmarshal_products :: "string \<Rightarrow> error + Sock list" where
  "json_Unmarshal_products data =
     (case checkValid data of
        None \<Rightarrow> Inl SyntaxError
      | Some v \<Rightarrow>
          (case (case v of
                   JNull \<Rightarrow> Some []
                 | JArray es \<Rightarrow> into_Socks es
                 | _ \<Rightarrow> None) of
             None \<Rightarrow> Inl UnmarshalTypeError
           | Some ps \<Rightarrow> Inr ps))"

text \<open>
  The surroundings in which the codec of the cache is \<open>encoding/json\<close> as modelled
  here: \<open>json.Marshal\<close> writes the text of the value, for slices that are nil or not,
  and \<open>json.Unmarshal\<close> reads as above.
\<close>

definition json_codec :: "env \<Rightarrow> bool" where
  "json_codec env =
     ((\<forall>ps. \<exists>nil nils. length nils = length ps
                \<and> Marshal_products env ps = Inr (Socks_text_as nil nils ps))
      \<and> (\<forall>p. \<exists>nil. Marshal_product env p = Inr (Sock_text_as nil p))
      \<and> (\<forall>tags. \<exists>nil. Marshal_tags env tags = Inr (strings_text_as nil tags))
      \<and> Unmarshal_products env = json_Unmarshal_products
      \<and> Unmarshal_product env = json_Unmarshal_product
      \<and> Unmarshal_tags env = json_Unmarshal_tags)"

section \<open>The cache: \<open>catalogueCache\<close>\<close>

subsection \<open>Product lists\<close>

definition GetProducts ::
  "env \<Rightarrow> string list \<Rightarrow> string \<Rightarrow> int64 \<Rightarrow> int64 \<Rightarrow> world
     \<Rightarrow> (Sock list \<times> bool \<times> error option) \<times> world" where
  "GetProducts env tags order pageNum pageSize w =
     (let key = productListKey tags order pageNum pageSize;
          ((val, err), w) = client_Get env key w
      in if err = Some redis_Nil then
           (([], False, None),
            logger_Log env [(''cache'', LStr ''miss''), (''key'', LStr key),
                            (''operation'', LStr ''GetProducts'')] w)
         else (case err of
                 Some e \<Rightarrow>
                   (([], False, Some e),
                    logger_Log env [(''cache'', LStr ''error''), (''operation'', LStr ''GetProducts''),
                                    (''key'', LStr key), (''error'', LErr e)] w)
               | None \<Rightarrow>
                   (case Unmarshal_products env val of
                      Inl e \<Rightarrow>
                        (let w = logger_Log env [(''cache'', LStr ''unmarshal_error''),
                                                 (''operation'', LStr ''GetProducts''),
                                                 (''key'', LStr key), (''error'', LErr e)] w;
                             (ignored, w) = client_Del env key w
                         in (([], False, None), w))
                    | Inr products \<Rightarrow>
                        ((products, True, None),
                         logger_Log env [(''cache'', LStr ''hit''), (''key'', LStr key),
                                         (''operation'', LStr ''GetProducts''),
                                         (''count'', LInt (of_nat (length products)))] w))))"

definition SetProducts ::
  "env \<Rightarrow> string list \<Rightarrow> string \<Rightarrow> int64 \<Rightarrow> int64 \<Rightarrow> Sock list \<Rightarrow> world
     \<Rightarrow> error option \<times> world" where
  "SetProducts env tags order pageNum pageSize products w =
     (let key = productListKey tags order pageNum pageSize
      in case Marshal_products env products of
           Inl e \<Rightarrow>
             (Some e,
              logger_Log env [(''cache'', LStr ''marshal_error''), (''operation'', LStr ''SetProducts''),
                              (''key'', LStr key), (''error'', LErr e)] w)
         | Inr data \<Rightarrow>
             (case client_Set env key data ttl w of
                (Some e, w) \<Rightarrow>
                  (Some e,
                   logger_Log env [(''cache'', LStr ''error''), (''operation'', LStr ''SetProducts''),
                                   (''key'', LStr key), (''error'', LErr e)] w)
              | (None, w) \<Rightarrow>
                  (None,
                   logger_Log env [(''cache'', LStr ''set''), (''key'', LStr key),
                                   (''operation'', LStr ''SetProducts''),
                                   (''count'', LInt (of_nat (length products))),
                                   (''ttl'', LDur ttl)] w)))"

subsection \<open>Single products\<close>

definition GetProduct ::
  "env \<Rightarrow> string \<Rightarrow> world \<Rightarrow> (Sock \<times> bool \<times> error option) \<times> world" where
  "GetProduct env ident w =
     (let key = productKey ident;
          ((val, err), w) = client_Get env key w
      in if err = Some redis_Nil then
           ((Sock_zero, False, None),
            logger_Log env [(''cache'', LStr ''miss''), (''key'', LStr key),
                            (''operation'', LStr ''GetProduct'')] w)
         else (case err of
                 Some e \<Rightarrow>
                   ((Sock_zero, False, Some e),
                    logger_Log env [(''cache'', LStr ''error''), (''operation'', LStr ''GetProduct''),
                                    (''key'', LStr key), (''error'', LErr e)] w)
               | None \<Rightarrow>
                   (case Unmarshal_product env val of
                      Inl e \<Rightarrow>
                        (let w = logger_Log env [(''cache'', LStr ''unmarshal_error''),
                                                 (''operation'', LStr ''GetProduct''),
                                                 (''key'', LStr key), (''error'', LErr e)] w;
                             (ignored, w) = client_Del env key w
                         in ((Sock_zero, False, None), w))
                    | Inr product \<Rightarrow>
                        ((product, True, None),
                         logger_Log env [(''cache'', LStr ''hit''), (''key'', LStr key),
                                         (''operation'', LStr ''GetProduct''),
                                         (''product_id'', LStr ident)] w))))"

definition SetProduct :: "env \<Rightarrow> string \<Rightarrow> Sock \<Rightarrow> world \<Rightarrow> error option \<times> world" where
  "SetProduct env ident product w =
     (let key = productKey ident
      in case Marshal_product env product of
           Inl e \<Rightarrow>
             (Some e,
              logger_Log env [(''cache'', LStr ''marshal_error''), (''operation'', LStr ''SetProduct''),
                              (''key'', LStr key), (''error'', LErr e)] w)
         | Inr data \<Rightarrow>
             (case client_Set env key data ttl w of
                (Some e, w) \<Rightarrow>
                  (Some e,
                   logger_Log env [(''cache'', LStr ''error''), (''operation'', LStr ''SetProduct''),
                                   (''key'', LStr key), (''error'', LErr e)] w)
              | (None, w) \<Rightarrow>
                  (None,
                   logger_Log env [(''cache'', LStr ''set''), (''key'', LStr key),
                                   (''operation'', LStr ''SetProduct''),
                                   (''product_id'', LStr ident), (''ttl'', LDur ttl)] w)))"

subsection \<open>Counts\<close>

definition GetCount ::
  "env \<Rightarrow> string list \<Rightarrow> world \<Rightarrow> (int64 \<times> bool \<times> error option) \<times> world" where
  "GetCount env tags w =
     (let key = countKey tags;
          ((val, err), w) = client_Get env key w
      in if err = Some redis_Nil then
           ((0, False, None),
            logger_Log env [(''cache'', LStr ''miss''), (''key'', LStr key),
                            (''operation'', LStr ''GetCount'')] w)
         else (case err of
                 Some e \<Rightarrow>
                   ((0, False, Some e),
                    logger_Log env [(''cache'', LStr ''error''), (''operation'', LStr ''GetCount''),
                                    (''key'', LStr key), (''error'', LErr e)] w)
               | None \<Rightarrow>
                   (case Atoi val of
                      (count, Some e) \<Rightarrow>
                        (let w = logger_Log env [(''cache'', LStr ''parse_error''),
                                                 (''operation'', LStr ''GetCount''),
                                                 (''key'', LStr key), (''error'', LErr e)] w;
                             (ignored, w) = client_Del env key w
                         in ((0, False, None), w))
                    | (count, None) \<Rightarrow>
                        ((count, True, None),
                         logger_Log env [(''cache'', LStr ''hit''), (''key'', LStr key),
                                         (''operation'', LStr ''GetCount''),
                                         (''count'', LInt count)] w))))"

text \<open>The client writes an integer value as its decimal text.\<close>

definition SetCount :: "env \<Rightarrow> string list \<Rightarrow> int64 \<Rightarrow> world \<Rightarrow> error option \<times> world" where
  "SetCount env tags count w =
     (let key = countKey tags
      in case client_Set env key (Itoa count) ttl w of
           (Some e, w) \<Rightarrow>
             (Some e,
              logger_Log env [(''cache'', LStr ''error''), (''operation'', LStr ''SetCount''),
                              (''key'', LStr key), (''error'', LErr e)] w)
         | (None, w) \<Rightarrow>
             (None,
              logger_Log env [(''cache'', LStr ''set''), (''key'', LStr key),
                              (''operation'', LStr ''SetCount''),
                              (''count'', LInt count), (''ttl'', LDur ttl)] w))"

subsection \<open>Tags\<close>

definition GetTags ::
  "env \<Rightarrow> world \<Rightarrow> (string list \<times> bool \<times> error option) \<times> world" where
  "GetTags env w =
     (let key = tagsKey;
          ((val, err), w) = client_Get env key w
      in if err = Some redis_Nil then
           (([], False, None),
            logger_Log env [(''cache'', LStr ''miss''), (''key'', LStr key),
                            (''operation'', LStr ''GetTags'')] w)
         else (case err of
                 Some e \<Rightarrow>
                   (([], False, Some e),
                    logger_Log env [(''cache'', LStr ''error''), (''operation'', LStr ''GetTags''),
                                    (''key'', LStr key), (''error'', LErr e)] w)
               | None \<Rightarrow>
                   (case Unmarshal_tags env val of
                      Inl e \<Rightarrow>
                        (let w = logger_Log env [(''cache'', LStr ''unmarshal_error''),
                                                 (''operation'', LStr ''GetTags''),
                                                 (''key'', LStr key), (''error'', LErr e)] w;
                             (ignored, w) = client_Del env key w
                         in (([], False, None), w))
                    | Inr tags \<Rightarrow>
                        ((tags, True, None),
                         logger_Log env [(''cache'', LStr ''hit''), (''key'', LStr key),
                                         (''operation'', LStr ''GetTags''),
                                         (''count'', LInt (of_nat (length tags)))] w))))"

definition SetTags :: "env \<Rightarrow> string list \<Rightarrow> world \<Rightarrow> error option \<times> world" where
  "SetTags env tags w =
     (let key = tagsKey
      in case Marshal_tags env tags of
           Inl e \<Rightarrow>
             (Some e,
              logger_Log env [(''cache'', LStr ''marshal_error''), (''operation'', LStr ''SetTags''),
                              (''key'', LStr key), (''error'', LErr e)] w)
         | Inr data \<Rightarrow>
             (case client_Set env key data ttl w of
                (Some e, w) \<Rightarrow>
                  (Some e,
                   logger_Log env [(''cache'', LStr ''error''), (''operation'', LStr ''SetTags''),
                                   (''key'', LStr key), (''error'', LErr e)] w)
              | (None, w) \<Rightarrow>
                  (None,
                   logger_Log env [(''cache'', LStr ''set''), (''key'', LStr key),
                                   (''operation'', LStr ''SetTags''),
                                   (''count'', LInt (of_nat (length tags))),
                                   (''ttl'', LDur ttl)] w)))"

section \<open>The cached read coordinator: \<open>CachedService\<close>\<close>

text \<open>
  Each read has the same shape. The part after the comment \<open>Cache miss - get from
  database\<close> is reached on a cache error and on a miss; it is a definition of its own.
  \<open>start\<close> is the clock reading \<open>time.Now()\<close> taken on entry, and \<open>time.Since(start)\<close>
  is the clock's advance since then. The write-back runs in a goroutine of its own.
\<close>

definition List_from_database ::
  "env \<Rightarrow> Duration \<Rightarrow> string list \<Rightarrow> string \<Rightarrow> int64 \<Rightarrow> int64 \<Rightarrow> world
     \<Rightarrow> (Sock list \<times> error option) \<times> world" where
  "List_from_database env start tags order pageNum pageSize w =
     (let w = logger_Log env [(''cache_hit'', LStr ''false''), (''operation'', LStr ''List''),
                              (''source'', LStr ''database'')] w;
          w = emit env (Call (ListCall tags order pageNum pageSize)) w;
          (socks, err) = svc_List (service env) tags order pageNum pageSize;
          duration = now w - start
      in case err of
           Some e \<Rightarrow>
             (let w = w\<lparr>metrics := RecordCacheMiss ''List'' duration (metrics w)\<rparr>;
                  w = logger_Log env [(''operation'', LStr ''List''), (''error'', LErr e),
                                      (''duration_ms'', LInt (Milliseconds duration))] w
              in ((socks, Some e), w))
         | None \<Rightarrow>
             (let w = w\<lparr>metrics := RecordCacheMiss ''List'' duration (metrics w)\<rparr>;
                  w = go (SetProductsTask tags order pageNum pageSize socks) w;
                  w = logger_Log env [(''operation'', LStr ''List''), (''source'', LStr ''database''),
                                      (''cached'', LStr ''true''),
                                      (''count'', LInt (of_nat (length socks))),
                                      (''duration_ms'', LInt (Milliseconds duration))] w
              in ((socks, None), w)))"

definition CachedService_List ::
  "env \<Rightarrow> string list \<Rightarrow> string \<Rightarrow> int64 \<Rightarrow> int64 \<Rightarrow> world
     \<Rightarrow> (Sock list \<times> error option) \<times> world" where
  "CachedService_List env tags order pageNum pageSize w =
     (let start = now w;
          ((socks, found, err), w) = GetProducts env tags order pageNum pageSize w
      in case err of
           Some e \<Rightarrow>
             (let w = logger_Log env [(''cache_error'', LErr e), (''operation'', LStr ''List''),
                                      (''fallback'', LStr ''database'')] w;
                  w = w\<lparr>metrics := RecordCacheError ''List'' (now w - start) (metrics w)\<rparr>
              in List_from_database env start tags order pageNum pageSize w)
         | None \<Rightarrow>
             if found then
               (let duration = now w - start;
                    w = w\<lparr>metrics := RecordCacheHit ''List'' duration (metrics w)\<rparr>;
                    w = logger_Log env [(''cache_hit'', LStr ''true''), (''operation'', LStr ''List''),
                                        (''tags'', LStrs tags), (''order'', LStr order),
                                        (''pageNum'', LInt pageNum), (''pageSize'', LInt pageSize),
                                        (''count'', LInt (of_nat (length socks))),
                                        (''duration_ms'', LInt (Milliseconds duration))] w
                in ((socks, None), w))
             else List_from_database env start tags order pageNum pageSize w)"

definition Count_from_database ::
  "env \<Rightarrow> Duration \<Rightarrow> string list \<Rightarrow> world \<Rightarrow> (int64 \<times> error option) \<times> world" where
  "Count_from_database env start tags w =
     (let w = logger_Log env [(''cache_hit'', LStr ''false''), (''operation'', LStr ''Count''),
                              (''source'', LStr ''database'')] w;
          w = emit env (Call (CountCall tags)) w;
          (count, err) = svc_Count (service env) tags;
          duration = now w - start
      in case err of
           Some e \<Rightarrow>
             (let w = w\<lparr>metrics := RecordCacheMiss ''Count'' duration (metrics w)\<rparr>;
                  w = logger_Log env [(''operation'', LStr ''Count''), (''error'', LErr e),
                                      (''duration_ms'', LInt (Milliseconds duration))] w
              in ((count, Some e), w))
         | None \<Rightarrow>
             (let w = w\<lparr>metrics := RecordCacheMiss ''Count'' duration (metrics w)\<rparr>;
                  w = go (SetCountTask tags count) w;
                  w = logger_Log env [(''operation'', LStr ''Count''), (''source'', LStr ''database''),
                                      (''cached'', LStr ''true''), (''count'', LInt count),
                                      (''duration_ms'', LInt (Milliseconds duration))] w
              in ((count, None), w)))"

definition CachedService_Count ::
  "env \<Rightarrow> string list \<Rightarrow> world \<Rightarrow> (int64 \<times> error option) \<times> world" where
  "CachedService_Count env tags w =
     (let start = now w;
          ((count, found, err), w) = GetCount env tags w
      in case err of
           Some e \<Rightarrow>
             (let w = logger_Log env [(''cache_error'', LErr e), (''operation'', LStr ''Count''),
                                      (''fallback'', LStr ''database'')] w;
                  w = w\<lparr>metrics := RecordCacheError ''Count'' (now w - start) (metrics w)\<rparr>
              in Count_from_database env start tags w)
         | None \<Rightarrow>
             if found then
               (let duration = now w - start;
                    w = w\<lparr>metrics := RecordCacheHit ''Count'' duration (metrics w)\<rparr>;
                    w = logger_Log env [(''cache_hit'', LStr ''true''), (''operation'', LStr ''Count''),
                                        (''tags'', LStrs tags), (''count'', LInt count),
                                        (''duration_ms'', LInt (Milliseconds duration))] w
                in ((count, None), w))
             else Count_from_database env start tags w)"

definition Get_from_database ::
  "env \<Rightarrow> Duration \<Rightarrow> string \<Rightarrow> world \<Rightarrow> (Sock \<times> error option) \<times> world" where
  "Get_from_database env start ident w =
     (let w = logger_Log env [(''cache_hit'', LStr ''false''), (''operation'', LStr ''Get''),
                              (''id'', LStr ident), (''source'', LStr ''database'')] w;
          w = emit env (Call (GetCall ident)) w;
          (sock, err) = svc_Get (service env) ident;
          duration = now w - start
      in case err of
           Some e \<Rightarrow>
             (let w = w\<lparr>metrics := RecordCacheMiss ''Get'' duration (metrics w)\<rparr>;
                  w = logger_Log env [(''operation'', LStr ''Get''), (''id'', LStr ident),
                                      (''error'', LErr e),
                                      (''duration_ms'', LInt (Milliseconds duration))] w
              in ((sock, Some e), w))
         | None \<Rightarrow>
             (let w = w\<lparr>metrics := RecordCacheMiss ''Get'' duration (metrics w)\<rparr>;
                  w = go (SetProductTask ident sock) w;
                  w = logger_Log env [(''operation'', LStr ''Get''), (''id'', LStr ident),
                                      (''source'', LStr ''database''), (''cached'', LStr ''true''),
                                      (''product_name'', LStr (Name sock)),
                                      (''duration_ms'', LInt (Milliseconds duration))] w
              in ((sock, None), w)))"

definition CachedService_Get ::
  "env \<Rightarrow> string \<Rightarrow> world \<Rightarrow> (Sock \<times> error option) \<times> world" where
  "CachedService_Get env ident w =
     (let start = now w;
          ((sock, found, err), w) = GetProduct env ident w
      in case err of
           Some e \<Rightarrow>
             (let w = logger_Log env [(''cache_error'', LErr e), (''operation'', LStr ''Get''),
                                      (''id'', LStr ident), (''fallback'', LStr ''database'')] w;
                  w = w\<lparr>metrics := RecordCacheError ''Get'' (now w - start) (metrics w)\<rparr>
              in Get_from_database env start ident w)
         | None \<Rightarrow>
             if found then
               (let duration = now w - start;
                    w = w\<lparr>metrics := RecordCacheHit ''Get'' duration (metrics w)\<rparr>;
                    w = logger_Log env [(''cache_hit'', LStr ''true''), (''operation'', LStr ''Get''),
                                        (''id'', LStr ident), (''product_name'', LStr (Name sock)),
                                        (''duration_ms'', LInt (Milliseconds duration))] w
                in ((sock, None), w))
             else Get_from_database env start ident w)"

definition Tags_from_database ::
  "env \<Rightarrow> Duration \<Rightarrow> world \<Rightarrow> (string list \<times> error option) \<times> world" where
  "Tags_from_database env start w =
     (let w = logger_Log env [(''cache_hit'', LStr ''false''), (''operation'', LStr ''Tags''),
                              (''source'', LStr ''database'')] w;
          w = emit env (Call TagsCall) w;
          (tags, err) = svc_Tags (service env);
          duration = now w - start
      in case err of
           Some e \<Rightarrow>
             (let w = w\<lparr>metrics := RecordCacheMiss ''Tags'' duration (metrics w)\<rparr>;
                  w = logger_Log env [(''operation'', LStr ''Tags''), (''error'', LErr e),
                                      (''duration_ms'', LInt (Milliseconds duration))] w
              in ((tags, Some e), w))
         | None \<Rightarrow>
             (let w = w\<lparr>metrics := RecordCacheMiss ''Tags'' duration (metrics w)\<rparr>;
                  w = go (SetTagsTask tags) w;
                  w = logger_Log env [(''operation'', LStr ''Tags''), (''source'', LStr ''database''),
                                      (''cached'', LStr ''true''),
                                      (''count'', LInt (of_nat (length tags))),
                                      (''duration_ms'', LInt (Milliseconds duration))] w
              in ((tags, None), w)))"

definition CachedService_Tags ::
  "env \<Rightarrow> world \<Rightarrow> (string list \<times> error option) \<times> world" where
  "CachedService_Tags env w =
     (let start = now w;
          ((tags, found, err), w) = GetTags env w
      in case err of
           Some e \<Rightarrow>
             (let w = logger_Log env [(''cache_error'', LErr e), (''operation'', LStr ''Tags''),
                                      (''fallback'', LStr ''database'')] w;
                  w = w\<lparr>metrics := RecordCacheError ''Tags'' (now w - start) (metrics w)\<rparr>
              in Tags_from_database env start w)
         | None \<Rightarrow>
             if found then
               (let duration = now w - start;
                    w = w\<lparr>metrics := RecordCacheHit ''Tags'' duration (metrics w)\<rparr>;
                    w = logger_Log env [(''cache_hit'', LStr ''true''), (''operation'', LStr ''Tags''),
                                        (''count'', LInt (of_nat (length tags))),
                                        (''duration_ms'', LInt (Milliseconds duration))] w
                in ((tags, None), w))
             else Tags_from_database env start w)"

section \<open>The cache warmer\<close>

definition warmTags :: "env \<Rightarrow> world \<Rightarrow> world" where
  "warmTags env w =
     (let start = now w;
          w = emit env (Call TagsCall) w;
          (tags, err) = svc_Tags (service env)
      in case err of
           Some e \<Rightarrow>
             logger_Log env [(''cache_warming'', LStr ''tags_error''), (''error'', LErr e)] w
         | None \<Rightarrow>
             (case SetTags env tags w of
                (Some e, w) \<Rightarrow>
                  logger_Log env [(''cache_warming'', LStr ''tags_cache_error''),
                                  (''error'', LErr e)] w
              | (None, w) \<Rightarrow>
                  logger_Log env [(''cache_warming'', LStr ''tags_completed''),
                                  (''count'', LInt (of_nat (length tags))),
                                  (''duration_ms'', LInt (Milliseconds (now w - start)))] w))"

type_synonym listing = "string list \<times> string \<times> int64 \<times> int64"

definition listings :: "listing list" where
  "listings =
     [([], [], 1, 6),
      ([], [], 1, 12),
      ([], ''price'', 1, 6),
      ([], ''name'', 1, 6),
      ([''brown''], [], 1, 6),
      ([''blue''], [], 1, 6),
      ([''geek''], [], 1, 6)]"

text \<open>The body of the loop over the listings: the function literal applied to each one.
  Its \<open>return\<close> leaves the literal, not \<open>warmProductListings\<close>.\<close>

fun warm_listing :: "env \<Rightarrow> listing \<Rightarrow> world \<Rightarrow> world" where
  "warm_listing env (tags, order, pageNum, pageSize) w =
     (let listStart = now w;
          w = emit env (Call (ListCall tags order pageNum pageSize)) w;
          (products, err) = svc_List (service env) tags order pageNum pageSize
      in case err of
           Some e \<Rightarrow>
             logger_Log env [(''cache_warming'', LStr ''listing_error''), (''error'', LErr e),
                             (''tags'', LStrs tags)] w
         | None \<Rightarrow>
             (case SetProducts env tags order pageNum pageSize products w of
                (Some e, w) \<Rightarrow>
                  logger_Log env [(''cache_warming'', LStr ''listing_cache_error''),
                                  (''error'', LErr e), (''tags'', LStrs tags)] w
              | (None, w) \<Rightarrow>
                  (let w = emit env (Call (CountCall tags)) w;
                       (count, err) = svc_Count (service env) tags;
                       w = (if err = None then snd (SetCount env tags count w) else w)
                   in logger_Log env [(''cache_warming'', LStr ''listing_completed''),
                                      (''tags'', LStrs tags), (''order'', LStr order),
                                      (''pageNum'', LInt pageNum), (''pageSize'', LInt pageSize),
                                      (''count'', LInt (of_nat (length products))),
                                      (''duration_ms'', LInt (Milliseconds (now w - listStart)))] w)))"

declare warm_listing.simps [simp del]

definition warmProductListings :: "env \<Rightarrow> world \<Rightarrow> world" where
  "warmProductListings env w =
     (let start = now w;
          w = foldl (\<lambda>w listing. warm_listing env listing w) w listings
      in logger_Log env [(''cache_warming'', LStr ''listings_completed''),
                         (''duration_ms'', LInt (Milliseconds (now w - start)))] w)"

text \<open>The loop over the products of the first page; \<open>warmed\<close> counts the products
  written.\<close>

fun warm_products :: "env \<Rightarrow> Sock list \<Rightarrow> int64 \<times> world \<Rightarrow> int64 \<times> world" where
  "warm_products env [] (warmed, w) = (warmed, w)"
| "warm_products env (product # rest) (warmed, w) =
     (let w = emit env (Call (GetCall (ID product))) w;
          (fullProduct, err) = svc_Get (service env) (ID product)
      in case err of
           Some e \<Rightarrow>
             warm_products env rest
               (warmed,
                logger_Log env [(''cache_warming'', LStr ''product_error''), (''error'', LErr e),
                                (''id'', LStr (ID product))] w)
         | None \<Rightarrow>
             (case SetProduct env (ID product) fullProduct w of
                (Some e, w) \<Rightarrow>
                  warm_products env rest
                    (warmed,
                     logger_Log env [(''cache_warming'', LStr ''product_cache_error''),
                                     (''error'', LErr e), (''id'', LStr (ID product))] w)
              | (None, w) \<Rightarrow> warm_products env rest (warmed + 1, w)))"

definition warmIndividualProducts :: "env \<Rightarrow> world \<Rightarrow> world" where
  "warmIndividualProducts env w =
     (let start = now w;
          w = emit env (Call (ListCall [] [] 1 10)) w;
          (products, err) = svc_List (service env) [] [] 1 10
      in case err of
           Some e \<Rightarrow>
             logger_Log env [(''cache_warming'', LStr ''products_list_error''),
                             (''error'', LErr e)] w
         | None \<Rightarrow>
             (let (warmed, w) = warm_products env products (0, w)
              in logger_Log env [(''cache_warming'', LStr ''products_completed''),
                                 (''warmed'', LInt warmed),
                                 (''total'', LInt (of_nat (length products))),
                                 (''duration_ms'', LInt (Milliseconds (now w - start)))] w))"

text \<open>\<open>WarmCache\<close> starts the three phases as goroutines and returns.\<close>

definition WarmCache :: "env \<Rightarrow> world \<Rightarrow> world" where
  "WarmCache env w =
     (let start = now w;
          w = logger_Log env [(''cache_warming'', LStr ''started'')] w;
          w = go WarmTagsTask w;
          w = go WarmProductListingsTask w;
          w = go WarmIndividualProductsTask w
      in logger_Log env [(''cache_warming'', LStr ''initiated''),
                         (''duration_ms'', LInt (Milliseconds (now w - start)))] w)"

section \<open>Running a goroutine\<close>

text \<open>
  The body of each goroutine the layer starts, as one step on the world. The write-backs
  log a failed write and give nothing to anyone; the warming phases are the functions
  above. When a goroutine runs, and between which other steps, is the scheduler's choice.
\<close>

fun run_task :: "env \<Rightarrow> task \<Rightarrow> world \<Rightarrow> world" where
  "run_task env (SetProductsTask tags order pageNum pageSize socks) w =
     (case SetProducts env tags order pageNum pageSize socks w of
        (Some cacheErr, w) \<Rightarrow>
          logger_Log env [(''cache_set_error'', LErr cacheErr), (''operation'', LStr ''List'')] w
      | (None, w) \<Rightarrow> w)"
| "run_task env (SetCountTask tags count) w =
     (case SetCount env tags count w of
        (Some cacheErr, w) \<Rightarrow>
          logger_Log env [(''cache_set_error'', LErr cacheErr), (''operation'', LStr ''Count'')] w
      | (None, w) \<Rightarrow> w)"
| "run_task env (SetProductTask ident sock) w =
     (case SetProduct env ident sock w of
        (Some cacheErr, w) \<Rightarrow>
          logger_Log env [(''cache_set_error'', LErr cacheErr), (''operation'', LStr ''Get''),
                          (''id'', LStr ident)] w
      | (None, w) \<Rightarrow> w)"
| "run_task env (SetTagsTask tags) w =
     (case SetTags env tags w of
        (Some cacheErr, w) \<Rightarrow>
          logger_Log env [(''cache_set_error'', LErr cacheErr), (''operation'', LStr ''Tags'')] w
      | (None, w) \<Rightarrow> w)"
| "run_task env WarmTagsTask w = warmTags env w"
| "run_task env WarmProductListingsTask w = warmProductListings env w"
| "run_task env WarmIndividualProductsTask w = warmIndividualProducts env w"

section \<open>Reading a trace\<close>

fun calls :: "event list \<Rightarrow> call list" where
  "calls [] = []"
| "calls (Call c # evs) = c # calls evs"
| "calls (e # evs) = calls evs"

fun redis_cmds :: "event list \<Rightarrow> redis_cmd list" where
  "redis_cmds [] = []"
| "redis_cmds (Redis c # evs) = c # redis_cmds evs"
| "redis_cmds (e # evs) = redis_cmds evs"

fun is_SET :: "redis_cmd \<Rightarrow> bool" where
  "is_SET (SET key val t) = True"
| "is_SET c = False"

text \<open>What happened between two states of the world.\<close>

definition new_events :: "world \<Rightarrow> world \<Rightarrow> event list" where
  "new_events w w' = drop (length (trace w)) (trace w')"

text \<open>
  What a warming phase does, as an observer of the warmer sees it: the calls of the
  authoritative service and the Redis commands, in order, and among them the log records
  of the warmer itself (those whose first key is \<open>cache_warming\<close>) without their
  \<open>duration_ms\<close> pair, which depends on the clock. The records the cache writes about
  its own operations are left out.
\<close>

fun warming_view :: "event list \<Rightarrow> event list" where
  "warming_view [] = []"
| "warming_view (Logged keyvals # evs) =
     (if map fst (take 1 keyvals) = [''cache_warming'']
      then Logged (filter (\<lambda>kv. fst kv \<noteq> ''duration_ms'') keyvals) # warming_view evs
      else warming_view evs)"
| "warming_view (e # evs) = e # warming_view evs"

subsection \<open>What the warming phases are expected to do\<close>

text \<open>
  The steps of one listing as the specification is to state them (claim C9 in its
  corrected form), written apart from the code. The list is fetched. If that fails,
  \<open>listing_error\<close> is logged and nothing more is done for the listing. Otherwise the
  list is written (the \<open>SET\<close> is sent unless the encoding fails); if the write fails,
  \<open>listing_cache_error\<close> is logged and nothing more is done for the listing. Otherwise
  the count is fetched, written if the fetch succeeded, and the listing is logged as
  completed: neither a failed count fetch nor a failed count write is logged by the
  warmer.
\<close>

fun expected_listing_steps :: "env \<Rightarrow> listing \<Rightarrow> event list" where
  "expected_listing_steps env (tags, order, pageNum, pageSize) =
     Call (ListCall tags order pageNum pageSize) #
     (case svc_List (service env) tags order pageNum pageSize of
        (products, Some e) \<Rightarrow>
          [Logged [(''cache_warming'', LStr ''listing_error''), (''error'', LErr e),
                   (''tags'', LStrs tags)]]
      | (products, None) \<Rightarrow>
          (case Marshal_products env products of
             Inl e \<Rightarrow>
               [Logged [(''cache_warming'', LStr ''listing_cache_error''), (''error'', LErr e),
                        (''tags'', LStrs tags)]]
           | Inr data \<Rightarrow>
               Redis (SET (productListKey tags order pageNum pageSize) data ttl) #
               (case fault env (SET (productListKey tags order pageNum pageSize) data ttl) of
                  Some e \<Rightarrow>
                    [Logged [(''cache_warming'', LStr ''listing_cache_error''),
                             (''error'', LErr e), (''tags'', LStrs tags)]]
                | None \<Rightarrow>
                    Call (CountCall tags) #
                    (case svc_Count (service env) tags of
                       (count, Some e) \<Rightarrow> []
                     | (count, None) \<Rightarrow> [Redis (SET (countKey tags) (Itoa count) ttl)])
                    @ [Logged [(''cache_warming'', LStr ''listing_completed''),
                               (''tags'', LStrs tags), (''order'', LStr order),
                               (''pageNum'', LInt pageNum), (''pageSize'', LInt pageSize),
                               (''count'', LInt (of_nat (length products)))]])))"

declare expected_listing_steps.simps [simp del]

text \<open>
  The steps of one product of the first page, in the same way: the product is fetched;
  a failed fetch is logged as \<open>product_error\<close> and the product is not written; otherwise
  it is written, and a failed write is logged as \<open>product_cache_error\<close>. A product
  counts as warmed when both succeeded.
\<close>

definition product_written :: "env \<Rightarrow> Sock \<Rightarrow> bool" where
  "product_written env product =
     (case svc_Get (service env) (ID product) of
        (fullProduct, Some e) \<Rightarrow> False
      | (fullProduct, None) \<Rightarrow>
          (case Marshal_product env fullProduct of
             Inl e \<Rightarrow> False
           | Inr data \<Rightarrow> fault env (SET (productKey (ID product)) data ttl) = None))"

definition expected_product_steps :: "env \<Rightarrow> Sock \<Rightarrow> event list" where
  "expected_product_steps env product =
     Call (GetCall (ID product)) #
     (case svc_Get (service env) (ID product) of
        (fullProduct, Some e) \<Rightarrow>
          [Logged [(''cache_warming'', LStr ''product_error''), (''error'', LErr e),
                   (''id'', LStr (ID product))]]
      | (fullProduct, None) \<Rightarrow>
          (case Marshal_product env fullProduct of
             Inl e \<Rightarrow>
               [Logged [(''cache_warming'', LStr ''product_cache_error''), (''error'', LErr e),
                        (''id'', LStr (ID product))]]
           | Inr data \<Rightarrow>
               Redis (SET (productKey (ID product)) data ttl) #
               (case fault env (SET (productKey (ID product)) data ttl) of
                  Some e \<Rightarrow>
                    [Logged [(''cache_warming'', LStr ''product_cache_error''),
                             (''error'', LErr e), (''id'', LStr (ID product))]]
                | None \<Rightarrow> [])))"

text \<open>
  The individual-products phase: its first page is fetched; if that fails, the failure
  is logged and the phase ends; otherwise every product of the page has its steps, in
  order, and the phase reports how many products it wrote, of how many.
\<close>

definition expected_products_steps :: "env \<Rightarrow> event list" where
  "expected_products_steps env =
     Call (ListCall [] [] 1 10) #
     (case svc_List (service env) [] [] 1 10 of
        (products, Some e) \<Rightarrow>
          [Logged [(''cache_warming'', LStr ''products_list_error''), (''error'', LErr e)]]
      | (products, None) \<Rightarrow>
          concat (map (expected_product_steps env) products)
          @ [Logged [(''cache_warming'', LStr ''products_completed''),
                     (''warmed'', LInt (of_nat (length (filter (product_written env) products)))),
                     (''total'', LInt (of_nat (length products)))]])"

text \<open>The tags phase has a single item.\<close>

definition expected_tags_steps :: "env \<Rightarrow> event list" where
  "expected_tags_steps env =
     Call TagsCall #
     (case svc_Tags (service env) of
        (tags, Some e) \<Rightarrow>
          [Logged [(''cache_warming'', LStr ''tags_error''), (''error'', LErr e)]]
      | (tags, None) \<Rightarrow>
          (case Marshal_tags env tags of
             Inl e \<Rightarrow>
               [Logged [(''cache_warming'', LStr ''tags_cache_error''), (''error'', LErr e)]]
           | Inr data \<Rightarrow>
               Redis (SET tagsKey data ttl) #
               (case fault env (SET tagsKey data ttl) of
                  Some e \<Rightarrow>
                    [Logged [(''cache_warming'', LStr ''tags_cache_error''), (''error'', LErr e)]]
                | None \<Rightarrow>
                    [Logged [(''cache_warming'', LStr ''tags_completed''),
                             (''count'', LInt (of_nat (length tags)))]])))"

section \<open>A small test setting\<close>

text \<open>
  Stand-ins for the collaborators, used to run the model on concrete inputs: an
  authoritative service holding one sock, a clock on which every outside action takes
  a microsecond, and a codec that knows the empty list and the text \<open>[]\<close> only.
\<close>

definition sock1 :: Sock where
  "sock1 = \<lparr>ID = ''1'', Name = ''Holy'', Tags = [''brown'']\<rparr>"

definition stub_service :: Service where
  "stub_service =
     \<lparr>svc_List = (\<lambda>tags order pageNum pageSize. ([sock1], None)),
      svc_Count = (\<lambda>tags. (1, None)),
      svc_Get = (\<lambda>ident. if ident = ''1'' then (sock1, None)
                          else (Sock_zero, Some (Failure ''not found''))),
      svc_Tags = ([''brown''], None)\<rparr>"

definition stub_env :: "Service \<Rightarrow> (redis_cmd \<Rightarrow> error option) \<Rightarrow> env" where
  "stub_env svc f =
     \<lparr>service = svc, fault = f, latency = (\<lambda>e. 1000),
      Marshal_products = (\<lambda>products. Inr ''[]''),
      Unmarshal_products = (\<lambda>s. if s = ''[]'' then Inr [] else Inl (Failure ''invalid JSON'')),
      Marshal_product = (\<lambda>product. Inr ''{}''),
      Unmarshal_product = (\<lambda>s. if s = ''{}'' then Inr Sock_zero else Inl (Failure ''invalid JSON'')),
      Marshal_tags = (\<lambda>tags. Inr ''[]''),
      Unmarshal_tags = (\<lambda>s. if s = ''[]'' then Inr [] else Inl (Failure ''invalid JSON''))\<rparr>"

definition redis_up :: "redis_cmd \<Rightarrow> error option" where
  "redis_up c = None"

definition redis_down :: "redis_cmd \<Rightarrow> error option" where
  "redis_down c = Some (Failure ''connection refused'')"

definition world0 :: world where
  "world0 = \<lparr>store = Map.empty, metrics = NewCacheMetrics, trace = [], now = 0, goroutines = []\<rparr>"

definition warm_store :: "string \<rightharpoonup> string" where
  "warm_store =
     [''catalogue:products:all:order::page:1:size:6'' \<mapsto> ''[]'',
      ''catalogue:count:all'' \<mapsto> ''7'',
      ''catalogue:product:1'' \<mapsto> ''{}'',
      ''catalogue:tags:all'' \<mapsto> ''[]'']"

definition corrupt_store :: "string \<rightharpoonup> string" where
  "corrupt_store =
     [''catalogue:products:all:order::page:1:size:6'' \<mapsto> ''[{'',
      ''catalogue:count:all'' \<mapsto> ''seven'',
      ''catalogue:product:1'' \<mapsto> ''{oops'',
      ''catalogue:tags:all'' \<mapsto> ''brown'']"

text \<open>A Redis on which reads and writes work and every \<open>DEL\<close> times out.\<close>

fun redis_no_del :: "redis_cmd \<Rightarrow> error option" where
  "redis_no_del (DEL key) = Some (Failure ''i/o timeout'')"
| "redis_no_del c = None"

text \<open>A service on which the unfiltered first page of six fails, whose first page of
  ten has two socks, and which does not know the sock \<open>2\<close>.\<close>

definition sock2 :: Sock where
  "sock2 = \<lparr>ID = ''2'', Name = ''Crossed'', Tags = [''blue'']\<rparr>"

definition flaky_service :: Service where
  "flaky_service =
     stub_service
       \<lparr>svc_List := (\<lambda>tags order pageNum pageSize.
                       if tags = [] \<and> order = [] \<and> pageSize = 6
                       then ([], Some (Failure ''db timeout''))
                       else ([sock2, sock1], None))\<rparr>"

text \<open>
  A service and a Redis on which every kind of failure of a warming item occurs once:
  the unfiltered first page of six cannot be listed, the socks tagged \<open>blue\<close> cannot
  be counted, the sock \<open>2\<close> is unknown, and the writes of the \<open>geek\<close> listing and
  of the sock \<open>1\<close> time out.
\<close>

definition sock3 :: Sock where
  "sock3 = \<lparr>ID = ''3'', Name = ''Colourful'', Tags = [''blue'']\<rparr>"

definition patchy_service :: Service where
  "patchy_service =
     \<lparr>svc_List = (\<lambda>tags order pageNum pageSize.
                     if tags = [] \<and> order = [] \<and> pageSize = 6
                     then ([], Some (Failure ''db timeout''))
                     else ([sock2, sock1, sock3], None)),
      svc_Count = (\<lambda>tags. if tags = [''blue''] then (0, Some (Failure ''db timeout''))
                           else (3, None)),
      svc_Get = (\<lambda>ident. if ident = ''1'' then (sock1, None)
                          else if ident = ''3'' then (sock3, None)
                          else (Sock_zero, Some (Failure ''not found''))),
      svc_Tags = ([''brown'', ''blue''], None)\<rparr>"

fun redis_patchy :: "redis_cmd \<Rightarrow> error option" where
  "redis_patchy (SET key val t) =
     (if key = ''catalogue:products:geek:order::page:1:size:6'' \<or> key = ''catalogue:product:1''
      then Some (Failure ''i/o timeout'') else None)"
| "redis_patchy c = None"

text \<open>The test setting with \<open>encoding/json\<close> in the place of its stand-in.\<close>

definition json_env :: env where
  "json_env =
     (stub_env stub_service redis_up)
       \<lparr>Marshal_products := json_Marshal_products,
        Unmarshal_products := json_Unmarshal_products,
        Marshal_product := json_Marshal_product,
        Unmarshal_product := json_Unmarshal_product,
        Marshal_tags := json_Marshal_tags,
        Unmarshal_tags := json_Unmarshal_tags\<rparr>"

text \<open>The same, with every empty slice written being the nil slice.\<close>

definition json_env_nil :: env where
  "json_env_nil =
     json_env
       \<lparr>Marshal_products := (\<lambda>ps. Inr (Socks_text_as True (replicate (length ps) True) ps)),
        Marshal_product := (\<lambda>p. Inr (Sock_text_as True p)),
        Marshal_tags := (\<lambda>tags. Inr (strings_text_as True tags))\<rparr>"

section \<open>Facts about the model\<close>

subsection \<open>Traces and the Redis client\<close>

lemmas world_ops = logger_Log_def emit_def go_def

lemma calls_append [simp]: "calls (xs @ ys) = calls xs @ calls ys"
  by (induction xs rule: calls.induct) simp_all

lemma redis_cmds_append [simp]: "redis_cmds (xs @ ys) = redis_cmds xs @ redis_cmds ys"
  by (induction xs rule: redis_cmds.induct) simp_all

lemma new_events_append: "trace w' = trace w @ evs \<Longrightarrow> new_events w w' = evs"
  by (simp add: new_events_def)

lemma client_Get_fst:
  "fst (client_Get env key w) =
     (case fault env (GET key) of
        Some e \<Rightarrow> ([], Some e)
      | None \<Rightarrow> (case store w key of None \<Rightarrow> ([], Some redis_Nil) | Some val \<Rightarrow> (val, None)))"
  by (simp add: client_Get_def emit_def Let_def split: option.splits)

lemma client_Get_snd: "snd (client_Get env key w) = emit env (Redis (GET key)) w"
  by (simp add: client_Get_def Let_def split: option.splits)

lemma client_Del_snd:
  "snd (client_Del env key w) =
     (let w' = emit env (Redis (DEL key)) w
      in if fault env (DEL key) = None then w'\<lparr>store := (store w')(key := None)\<rparr> else w')"
  by (simp add: client_Del_def Let_def split: option.splits)

lemmas cache_get_simps = client_Get_fst client_Get_snd client_Del_snd case_prod_beta Let_def

subsection \<open>List\<close>

lemma List_from_database_result:
  "fst (List_from_database env start tags order pageNum pageSize w) = svc_List (service env) tags order pageNum pageSize"
  by (simp add: List_from_database_def Let_def case_prod_beta prod_eq_iff split: option.splits)

lemma List_from_database_metrics:
  "\<exists>d. metrics (snd (List_from_database env start tags order pageNum pageSize w)) = RecordCacheMiss ''List'' d (metrics w)"
  by (auto simp add: List_from_database_def world_ops Let_def case_prod_beta split: option.splits)

lemma List_from_database_goroutines:
  "goroutines (snd (List_from_database env start tags order pageNum pageSize w)) =
     (case snd (svc_List (service env) tags order pageNum pageSize) of
        None \<Rightarrow> goroutines w @ [SetProductsTask tags order pageNum pageSize (fst (svc_List (service env) tags order pageNum pageSize))]
      | Some e \<Rightarrow> goroutines w)"
  by (simp add: List_from_database_def world_ops Let_def case_prod_beta split: option.splits)

lemma List_from_database_trace:
  "\<exists>evs. trace (snd (List_from_database env start tags order pageNum pageSize w)) = trace w @ evs
         \<and> redis_cmds evs = [] \<and> calls evs = [ListCall tags order pageNum pageSize]"
  by (simp add: List_from_database_def world_ops Let_def case_prod_beta split: option.splits)

lemma List_from_database_store:
  "store (snd (List_from_database env start tags order pageNum pageSize w)) = store w"
  by (simp add: List_from_database_def world_ops Let_def case_prod_beta split: option.splits)

lemma GetProducts_frame:
  "metrics (snd (GetProducts env tags order pageNum pageSize w)) = metrics w"
  "goroutines (snd (GetProducts env tags order pageNum pageSize w)) = goroutines w"
  by (simp_all add: GetProducts_def cache_get_simps world_ops split: option.splits sum.splits)

lemma GetProducts_result:
  "fst (GetProducts env tags order pageNum pageSize w) =
     (case fault env (GET (productListKey tags order pageNum pageSize)) of
        Some e \<Rightarrow> ([], False, if e = redis_Nil then None else Some e)
      | None \<Rightarrow>
          (case store w (productListKey tags order pageNum pageSize) of
             None \<Rightarrow> ([], False, None)
           | Some val \<Rightarrow> (case Unmarshal_products env val of Inl e \<Rightarrow> ([], False, None) | Inr products \<Rightarrow> (products, True, None))))"
  by (simp add: GetProducts_def cache_get_simps world_ops split: option.splits sum.splits)

lemma GetProducts_trace:
  "\<exists>evs. trace (snd (GetProducts env tags order pageNum pageSize w)) = trace w @ evs \<and> calls evs = []
         \<and> set (redis_cmds evs) \<subseteq> {GET (productListKey tags order pageNum pageSize), DEL (productListKey tags order pageNum pageSize)}
         \<and> (fault env (GET (productListKey tags order pageNum pageSize)) = None \<longrightarrow> (\<exists>val. store w (productListKey tags order pageNum pageSize) = Some val) \<longrightarrow> \<not> fst (snd (fst (GetProducts env tags order pageNum pageSize w)))
              \<longrightarrow> DEL (productListKey tags order pageNum pageSize) \<in> set (redis_cmds evs))"
  by (simp add: GetProducts_def cache_get_simps world_ops split: option.splits sum.splits)

lemma GetProducts_store:
  "store (snd (GetProducts env tags order pageNum pageSize w)) = store w \<or> store (snd (GetProducts env tags order pageNum pageSize w)) = (store w)((productListKey tags order pageNum pageSize) := None)"
  by (simp add: GetProducts_def cache_get_simps world_ops split: option.splits sum.splits)

lemma GetProducts_purged:
  assumes "fault env (GET (productListKey tags order pageNum pageSize)) = None" "store w (productListKey tags order pageNum pageSize) = Some val"
      and "\<not> fst (snd (fst (GetProducts env tags order pageNum pageSize w)))" "fault env (DEL (productListKey tags order pageNum pageSize)) = None"
  shows "store (snd (GetProducts env tags order pageNum pageSize w)) (productListKey tags order pageNum pageSize) = None"
  using assms
  by (simp add: GetProducts_def cache_get_simps world_ops split: option.splits sum.splits)

lemma CachedService_List_fallback:
  assumes "snd (snd (fst (GetProducts env tags order pageNum pageSize w))) \<noteq> None \<or> \<not> fst (snd (fst (GetProducts env tags order pageNum pageSize w)))"
  shows "fst (CachedService_List env tags order pageNum pageSize w) = svc_List (service env) tags order pageNum pageSize"
  using assms
  by (auto simp add: CachedService_List_def Let_def case_prod_beta List_from_database_result
        split: option.splits)

lemma CachedService_List_hit:
  assumes "snd (snd (fst (GetProducts env tags order pageNum pageSize w))) = None" "fst (snd (fst (GetProducts env tags order pageNum pageSize w)))"
  shows "fst (CachedService_List env tags order pageNum pageSize w) = (fst (fst (GetProducts env tags order pageNum pageSize w)), None)"
  using assms
  by (simp add: CachedService_List_def Let_def case_prod_beta)

lemma CachedService_List_metrics:
  "\<exists>d1 d. metrics (snd (CachedService_List env tags order pageNum pageSize w)) =
     (case snd (snd (fst (GetProducts env tags order pageNum pageSize w))) of
        Some e \<Rightarrow> RecordCacheMiss ''List'' d (RecordCacheError ''List'' d1 (metrics w))
      | None \<Rightarrow> if fst (snd (fst (GetProducts env tags order pageNum pageSize w))) then RecordCacheHit ''List'' d (metrics w)
                else RecordCacheMiss ''List'' d (metrics w))"
proof -
  obtain r w1 where g: "GetProducts env tags order pageNum pageSize w = (r, w1)"
    by (cases "GetProducts env tags order pageNum pageSize w")
  have m1: "metrics w1 = metrics w"
    using GetProducts_frame(1) [of env tags order pageNum pageSize w] g by simp
  show ?thesis
  proof (cases "snd (snd r)")
    case None
    show ?thesis
    proof (cases "fst (snd r)")
      case True
      with None g m1 show ?thesis
        by (auto simp add: CachedService_List_def Let_def case_prod_beta world_ops)
    next
      case False
      from List_from_database_metrics [of env "now w" tags order pageNum pageSize w1]
      obtain d where "metrics (snd (List_from_database env (now w) tags order pageNum pageSize w1))
         = RecordCacheMiss ''List'' d (metrics w1)" ..
      with None False g m1 show ?thesis
        by (auto simp add: CachedService_List_def Let_def case_prod_beta)
    qed
  next
    case (Some e)
    define w2 where "w2 = logger_Log env [(''cache_error'', LErr e), (''operation'', LStr ''List''), (''fallback'', LStr ''database'')] w1"
    define w3 where "w3 = w2\<lparr>metrics := RecordCacheError ''List'' (now w2 - now w) (metrics w2)\<rparr>"
    have m3: "metrics w3 = RecordCacheError ''List'' (now w2 - now w) (metrics w)"
      by (simp add: w3_def w2_def world_ops m1)
    from List_from_database_metrics [of env "now w" tags order pageNum pageSize w3]
    obtain d where "metrics (snd (List_from_database env (now w) tags order pageNum pageSize w3))
         = RecordCacheMiss ''List'' d (metrics w3)" ..
    with Some g m3 show ?thesis
      by (auto simp add: CachedService_List_def Let_def case_prod_beta w2_def w3_def)
  qed
qed

lemma CachedService_List_trace:
  "\<exists>evs. trace (snd (CachedService_List env tags order pageNum pageSize w)) = trace (snd (GetProducts env tags order pageNum pageSize w)) @ evs
         \<and> redis_cmds evs = []
         \<and> calls evs = (if snd (snd (fst (GetProducts env tags order pageNum pageSize w))) = None \<and> fst (snd (fst (GetProducts env tags order pageNum pageSize w)))
                        then [] else [ListCall tags order pageNum pageSize])"
proof -
  obtain r w1 where g: "GetProducts env tags order pageNum pageSize w = (r, w1)"
    by (cases "GetProducts env tags order pageNum pageSize w")
  show ?thesis
  proof (cases "snd (snd r)")
    case None
    show ?thesis
    proof (cases "fst (snd r)")
      case True
      with None g show ?thesis
        by (simp add: CachedService_List_def Let_def case_prod_beta world_ops)
    next
      case False
      from List_from_database_trace [of env "now w" tags order pageNum pageSize w1]
      obtain evs where "trace (snd (List_from_database env (now w) tags order pageNum pageSize w1)) = trace w1 @ evs"
        "redis_cmds evs = []" "calls evs = [ListCall tags order pageNum pageSize]" by blast
      with None False g show ?thesis
        by (simp add: CachedService_List_def Let_def case_prod_beta)
    qed
  next
    case (Some e)
    define w2 where "w2 = logger_Log env [(''cache_error'', LErr e), (''operation'', LStr ''List''), (''fallback'', LStr ''database'')] w1"
    define w3 where "w3 = w2\<lparr>metrics := RecordCacheError ''List'' (now w2 - now w) (metrics w2)\<rparr>"
    have t3: "trace w3 = trace w1 @ [Logged [(''cache_error'', LErr e), (''operation'', LStr ''List''), (''fallback'', LStr ''database'')]]"
      by (simp add: w3_def w2_def world_ops)
    from List_from_database_trace [of env "now w" tags order pageNum pageSize w3]
    obtain evs where evs: "trace (snd (List_from_database env (now w) tags order pageNum pageSize w3)) = trace w3 @ evs"
        "redis_cmds evs = []" "calls evs = [ListCall tags order pageNum pageSize]" by blast
    have "trace (snd (CachedService_List env tags order pageNum pageSize w)) = trace w1 @ (Logged [(''cache_error'', LErr e), (''operation'', LStr ''List''), (''fallback'', LStr ''database'')] # evs)"
      using Some g evs(1) t3
      by (simp add: CachedService_List_def Let_def case_prod_beta w2_def w3_def)
    moreover have "redis_cmds (Logged [(''cache_error'', LErr e), (''operation'', LStr ''List''), (''fallback'', LStr ''database'')] # evs) = []" "calls (Logged [(''cache_error'', LErr e), (''operation'', LStr ''List''), (''fallback'', LStr ''database'')] # evs) = [ListCall tags order pageNum pageSize]"
      using evs(2,3) by simp_all
    ultimately show ?thesis
      using Some g by (intro exI [of _ "Logged [(''cache_error'', LErr e), (''operation'', LStr ''List''), (''fallback'', LStr ''database'')] # evs"]) simp
  qed
qed

lemma CachedService_List_store:
  "store (snd (CachedService_List env tags order pageNum pageSize w)) = store (snd (GetProducts env tags order pageNum pageSize w))"
  by (simp add: CachedService_List_def Let_def case_prod_beta world_ops List_from_database_store
        split: option.splits)

lemma CachedService_List_goroutines:
  "goroutines (snd (CachedService_List env tags order pageNum pageSize w)) =
     (if (snd (snd (fst (GetProducts env tags order pageNum pageSize w))) = None \<and> fst (snd (fst (GetProducts env tags order pageNum pageSize w))))
         \<or> snd (svc_List (service env) tags order pageNum pageSize) \<noteq> None
      then goroutines w
      else goroutines w @ [SetProductsTask tags order pageNum pageSize (fst (svc_List (service env) tags order pageNum pageSize))])"
  by (auto simp add: CachedService_List_def Let_def case_prod_beta world_ops
        List_from_database_goroutines GetProducts_frame split: option.splits)

subsection \<open>Count\<close>

lemma Count_from_database_result:
  "fst (Count_from_database env start tags w) = svc_Count (service env) tags"
  by (simp add: Count_from_database_def Let_def case_prod_beta prod_eq_iff split: option.splits)

lemma Count_from_database_metrics:
  "\<exists>d. metrics (snd (Count_from_database env start tags w)) = RecordCacheMiss ''Count'' d (metrics w)"
  by (auto simp add: Count_from_database_def world_ops Let_def case_prod_beta split: option.splits)

lemma Count_from_database_goroutines:
  "goroutines (snd (Count_from_database env start tags w)) =
     (case snd (svc_Count (service env) tags) of
        None \<Rightarrow> goroutines w @ [SetCountTask tags (fst (svc_Count (service env) tags))]
      | Some e \<Rightarrow> goroutines w)"
  by (simp add: Count_from_database_def world_ops Let_def case_prod_beta split: option.splits)

lemma Count_from_database_trace:
  "\<exists>evs. trace (snd (Count_from_database env start tags w)) = trace w @ evs
         \<and> redis_cmds evs = [] \<and> calls evs = [CountCall tags]"
  by (simp add: Count_from_database_def world_ops Let_def case_prod_beta split: option.splits)

lemma Count_from_database_store:
  "store (snd (Count_from_database env start tags w)) = store w"
  by (simp add: Count_from_database_def world_ops Let_def case_prod_beta split: option.splits)

lemma GetCount_frame:
  "metrics (snd (GetCount env tags w)) = metrics w"
  "goroutines (snd (GetCount env tags w)) = goroutines w"
  by (simp_all add: GetCount_def cache_get_simps world_ops split: option.splits sum.splits)

lemma GetCount_result:
  "fst (GetCount env tags w) =
     (case fault env (GET (countKey tags)) of
        Some e \<Rightarrow> (0, False, if e = redis_Nil then None else Some e)
      | None \<Rightarrow>
          (case store w (countKey tags) of
             None \<Rightarrow> (0, False, None)
           | Some val \<Rightarrow> (case snd (Atoi val) of Some e \<Rightarrow> (0, False, None) | None \<Rightarrow> (fst (Atoi val), True, None))))"
  by (simp add: GetCount_def cache_get_simps world_ops split: option.splits sum.splits)

lemma GetCount_trace:
  "\<exists>evs. trace (snd (GetCount env tags w)) = trace w @ evs \<and> calls evs = []
         \<and> set (redis_cmds evs) \<subseteq> {GET (countKey tags), DEL (countKey tags)}
         \<and> (fault env (GET (countKey tags)) = None \<longrightarrow> (\<exists>val. store w (countKey tags) = Some val) \<longrightarrow> \<not> fst (snd (fst (GetCount env tags w)))
              \<longrightarrow> DEL (countKey tags) \<in> set (redis_cmds evs))"
  by (simp add: GetCount_def cache_get_simps world_ops split: option.splits sum.splits)

lemma GetCount_store:
  "store (snd (GetCount env tags w)) = store w \<or> store (snd (GetCount env tags w)) = (store w)((countKey tags) := None)"
  by (simp add: GetCount_def cache_get_simps world_ops split: option.splits sum.splits)

lemma GetCount_purged:
  assumes "fault env (GET (countKey tags)) = None" "store w (countKey tags) = Some val"
      and "\<not> fst (snd (fst (GetCount env tags w)))" "fault env (DEL (countKey tags)) = None"
  shows "store (snd (GetCount env tags w)) (countKey tags) = None"
  using assms
  by (simp add: GetCount_def cache_get_simps world_ops split: option.splits sum.splits)

lemma CachedService_Count_fallback:
  assumes "snd (snd (fst (GetCount env tags w))) \<noteq> None \<or> \<not> fst (snd (fst (GetCount env tags w)))"
  shows "fst (CachedService_Count env tags w) = svc_Count (service env) tags"
  using assms
  by (auto simp add: CachedService_Count_def Let_def case_prod_beta Count_from_database_result
        split: option.splits)

lemma CachedService_Count_hit:
  assumes "snd (snd (fst (GetCount env tags w))) = None" "fst (snd (fst (GetCount env tags w)))"
  shows "fst (CachedService_Count env tags w) = (fst (fst (GetCount env tags w)), None)"
  using assms
  by (simp add: CachedService_Count_def Let_def case_prod_beta)

lemma CachedService_Count_metrics:
  "\<exists>d1 d. metrics (snd (CachedService_Count env tags w)) =
     (case snd (snd (fst (GetCount env tags w))) of
        Some e \<Rightarrow> RecordCacheMiss ''Count'' d (RecordCacheError ''Count'' d1 (metrics w))
      | None \<Rightarrow> if fst (snd (fst (GetCount env tags w))) then RecordCacheHit ''Count'' d (metrics w)
                else RecordCacheMiss ''Count'' d (metrics w))"
proof -
  obtain r w1 where g: "GetCount env tags w = (r, w1)"
    by (cases "GetCount env tags w")
  have m1: "metrics w1 = metrics w"
    using GetCount_frame(1) [of env tags w] g by simp
  show ?thesis
  proof (cases "snd (snd r)")
    case None
    show ?thesis
    proof (cases "fst (snd r)")
      case True
      with None g m1 show ?thesis
        by (auto simp add: CachedService_Count_def Let_def case_prod_beta world_ops)
    next
      case False
      from Count_from_database_metrics [of env "now w" tags w1]
      obtain d where "metrics (snd (Count_from_database env (now w) tags w1))
         = RecordCacheMiss ''Count'' d (metrics w1)" ..
      with None False g m1 show ?thesis
        by (auto simp add: CachedService_Count_def Let_def case_prod_beta)
    qed
  next
    case (Some e)
    define w2 where "w2 = logger_Log env [(''cache_error'', LErr e), (''operation'', LStr ''Count''), (''fallback'', LStr ''database'')] w1"
    define w3 where "w3 = w2\<lparr>metrics := RecordCacheError ''Count'' (now w2 - now w) (metrics w2)\<rparr>"
    have m3: "metrics w3 = RecordCacheError ''Count'' (now w2 - now w) (metrics w)"
      by (simp add: w3_def w2_def world_ops m1)
    from Count_from_database_metrics [of env "now w" tags w3]
    obtain d where "metrics (snd (Count_from_database env (now w) tags w3))
         = RecordCacheMiss ''Count'' d (metrics w3)" ..
    with Some g m3 show ?thesis
      by (auto simp add: CachedService_Count_def Let_def case_prod_beta w2_def w3_def)
  qed
qed

lemma CachedService_Count_trace:
  "\<exists>evs. trace (snd (CachedService_Count env tags w)) = trace (snd (GetCount env tags w)) @ evs
         \<and> redis_cmds evs = []
         \<and> calls evs = (if snd (snd (fst (GetCount env tags w))) = None \<and> fst (snd (fst (GetCount env tags w)))
                        then [] else [CountCall tags])"
proof -
  obtain r w1 where g: "GetCount env tags w = (r, w1)"
    by (cases "GetCount env tags w")
  show ?thesis
  proof (cases "snd (snd r)")
    case None
    show ?thesis
    proof (cases "fst (snd r)")
      case True
      with None g show ?thesis
        by (simp add: CachedService_Count_def Let_def case_prod_beta world_ops)
    next
      case False
      from Count_from_database_trace [of env "now w" tags w1]
      obtain evs where "trace (snd (Count_from_database env (now w) tags w1)) = trace w1 @ evs"
        "redis_cmds evs = []" "calls evs = [CountCall tags]" by blast
      with None False g show ?thesis
        by (simp add: CachedService_Count_def Let_def case_prod_beta)
    qed
  next
    case (Some e)
    define w2 where "w2 = logger_Log env [(''cache_error'', LErr e), (''operation'', LStr ''Count''), (''fallback'', LStr ''database'')] w1"
    define w3 where "w3 = w2\<lparr>metrics := RecordCacheError ''Count'' (now w2 - now w) (metrics w2)\<rparr>"
    have t3: "trace w3 = trace w1 @ [Logged [(''cache_error'', LErr e), (''operation'', LStr ''Count''), (''fallback'', LStr ''database'')]]"
      by (simp add: w3_def w2_def world_ops)
    from Count_from_database_trace [of env "now w" tags w3]
    obtain evs where evs: "trace (snd (Count_from_database env (now w) tags w3)) = trace w3 @ evs"
        "redis_cmds evs = []" "calls evs = [CountCall tags]" by blast
    have "trace (snd (CachedService_Count env tags w)) = trace w1 @ (Logged [(''cache_error'', LErr e), (''operation'', LStr ''Count''), (''fallback'', LStr ''database'')] # evs)"
      using Some g evs(1) t3
      by (simp add: CachedService_Count_def Let_def case_prod_beta w2_def w3_def)
    moreover have "redis_cmds (Logged [(''cache_error'', LErr e), (''operation'', LStr ''Count''), (''fallback'', LStr ''database'')] # evs) = []" "calls (Logged [(''cache_error'', LErr e), (''operation'', LStr ''Count''), (''fallback'', LStr ''database'')] # evs) = [CountCall tags]"
      using evs(2,3) by simp_all
    ultimately show ?thesis
      using Some g by (intro exI [of _ "Logged [(''cache_error'', LErr e), (''operation'', LStr ''Count''), (''fallback'', LStr ''database'')] # evs"]) simp
  qed
qed

lemma CachedService_Count_store:
  "store (snd (CachedService_Count env tags w)) = store (snd (GetCount env tags w))"
  by (simp add: CachedService_Count_def Let_def case_prod_beta world_ops Count_from_database_store
        split: option.splits)

lemma CachedService_Count_goroutines:
  "goroutines (snd (CachedService_Count env tags w)) =
     (if (snd (snd (fst (GetCount env tags w))) = None \<and> fst (snd (fst (GetCount env tags w))))
         \<or> snd (svc_Count (service env) tags) \<noteq> None
      then goroutines w
      else goroutines w @ [SetCountTask tags (fst (svc_Count (service env) tags))])"
  by (auto simp add: CachedService_Count_def Let_def case_prod_beta world_ops
        Count_from_database_goroutines GetCount_frame split: option.splits)

subsection \<open>Get\<close>

lemma Get_from_database_result:
  "fst (Get_from_database env start ident w) = svc_Get (service env) ident"
  by (simp add: Get_from_database_def Let_def case_prod_beta prod_eq_iff split: option.splits)

lemma Get_from_database_metrics:
  "\<exists>d. metrics (snd (Get_from_database env start ident w)) = RecordCacheMiss ''Get'' d (metrics w)"
  by (auto simp add: Get_from_database_def world_ops Let_def case_prod_beta split: option.splits)

lemma Get_from_database_goroutines:
  "goroutines (snd (Get_from_database env start ident w)) =
     (case snd (svc_Get (service env) ident) of
        None \<Rightarrow> goroutines w @ [SetProductTask ident (fst (svc_Get (service env) ident))]
      | Some e \<Rightarrow> goroutines w)"
  by (simp add: Get_from_database_def world_ops Let_def case_prod_beta split: option.splits)

lemma Get_from_database_trace:
  "\<exists>evs. trace (snd (Get_from_database env start ident w)) = trace w @ evs
         \<and> redis_cmds evs = [] \<and> calls evs = [GetCall ident]"
  by (simp add: Get_from_database_def world_ops Let_def case_prod_beta split: option.splits)

lemma Get_from_database_store:
  "store (snd (Get_from_database env start ident w)) = store w"
  by (simp add: Get_from_database_def world_ops Let_def case_prod_beta split: option.splits)

lemma GetProduct_frame:
  "metrics (snd (GetProduct env ident w)) = metrics w"
  "goroutines (snd (GetProduct env ident w)) = goroutines w"
  by (simp_all add: GetProduct_def cache_get_simps world_ops split: option.splits sum.splits)

lemma GetProduct_result:
  "fst (GetProduct env ident w) =
     (case fault env (GET (productKey ident)) of
        Some e \<Rightarrow> (Sock_zero, False, if e = redis_Nil then None else Some e)
      | None \<Rightarrow>
          (case store w (productKey ident) of
             None \<Rightarrow> (Sock_zero, False, None)
           | Some val \<Rightarrow> (case Unmarshal_product env val of Inl e \<Rightarrow> (Sock_zero, False, None) | Inr product \<Rightarrow> (product, True, None))))"
  by (simp add: GetProduct_def cache_get_simps world_ops split: option.splits sum.splits)

lemma GetProduct_trace:
  "\<exists>evs. trace (snd (GetProduct env ident w)) = trace w @ evs \<and> calls evs = []
         \<and> set (redis_cmds evs) \<subseteq> {GET (productKey ident), DEL (productKey ident)}
         \<and> (fault env (GET (productKey ident)) = None \<longrightarrow> (\<exists>val. store w (productKey ident) = Some val) \<longrightarrow> \<not> fst (snd (fst (GetProduct env ident w)))
              \<longrightarrow> DEL (productKey ident) \<in> set (redis_cmds evs))"
  by (simp add: GetProduct_def cache_get_simps world_ops split: option.splits sum.splits)

lemma GetProduct_store:
  "store (snd (GetProduct env ident w)) = store w \<or> store (snd (GetProduct env ident w)) = (store w)((productKey ident) := None)"
  by (simp add: GetProduct_def cache_get_simps world_ops split: option.splits sum.splits)

lemma GetProduct_purged:
  assumes "fault env (GET (productKey ident)) = None" "store w (productKey ident) = Some val"
      and "\<not> fst (snd (fst (GetProduct env ident w)))" "fault env (DEL (productKey ident)) = None"
  shows "store (snd (GetProduct env ident w)) (productKey ident) = None"
  using assms
  by (simp add: GetProduct_def cache_get_simps world_ops split: option.splits sum.splits)

lemma CachedService_Get_fallback:
  assumes "snd (snd (fst (GetProduct env ident w))) \<noteq> None \<or> \<not> fst (snd (fst (GetProduct env ident w)))"
  shows "fst (CachedService_Get env ident w) = svc_Get (service env) ident"
  using assms
  by (auto simp add: CachedService_Get_def Let_def case_prod_beta Get_from_database_result
        split: option.splits)

lemma CachedService_Get_hit:
  assumes "snd (snd (fst (GetProduct env ident w))) = None" "fst (snd (fst (GetProduct env ident w)))"
  shows "fst (CachedService_Get env ident w) = (fst (fst (GetProduct env ident w)), None)"
  using assms
  by (simp add: CachedService_Get_def Let_def case_prod_beta)

lemma CachedService_Get_metrics:
  "\<exists>d1 d. metrics (snd (CachedService_Get env ident w)) =
     (case snd (snd (fst (GetProduct env ident w))) of
        Some e \<Rightarrow> RecordCacheMiss ''Get'' d (RecordCacheError ''Get'' d1 (metrics w))
      | None \<Rightarrow> if fst (snd (fst (GetProduct env ident w))) then RecordCacheHit ''Get'' d (metrics w)
                else RecordCacheMiss ''Get'' d (metrics w))"
proof -
  obtain r w1 where g: "GetProduct env ident w = (r, w1)"
    by (cases "GetProduct env ident w")
  have m1: "metrics w1 = metrics w"
    using GetProduct_frame(1) [of env ident w] g by simp
  show ?thesis
  proof (cases "snd (snd r)")
    case None
    show ?thesis
    proof (cases "fst (snd r)")
      case True
      with None g m1 show ?thesis
        by (auto simp add: CachedService_Get_def Let_def case_prod_beta world_ops)
    next
      case False
      from Get_from_database_metrics [of env "now w" ident w1]
      obtain d where "metrics (snd (Get_from_database env (now w) ident w1))
         = RecordCacheMiss ''Get'' d (metrics w1)" ..
      with None False g m1 show ?thesis
        by (auto simp add: CachedService_Get_def Let_def case_prod_beta)
    qed
  next
    case (Some e)
    define w2 where "w2 = logger_Log env [(''cache_error'', LErr e), (''operation'', LStr ''Get''), (''id'', LStr ident), (''fallback'', LStr ''database'')] w1"
    define w3 where "w3 = w2\<lparr>metrics := RecordCacheError ''Get'' (now w2 - now w) (metrics w2)\<rparr>"
    have m3: "metrics w3 = RecordCacheError ''Get'' (now w2 - now w) (metrics w)"
      by (simp add: w3_def w2_def world_ops m1)
    from Get_from_database_metrics [of env "now w" ident w3]
    obtain d where "metrics (snd (Get_from_database env (now w) ident w3))
         = RecordCacheMiss ''Get'' d (metrics w3)" ..
    with Some g m3 show ?thesis
      by (auto simp add: CachedService_Get_def Let_def case_prod_beta w2_def w3_def)
  qed
qed

lemma CachedService_Get_trace:
  "\<exists>evs. trace (snd (CachedService_Get env ident w)) = trace (snd (GetProduct env ident w)) @ evs
         \<and> redis_cmds evs = []
         \<and> calls evs = (if snd (snd (fst (GetProduct env ident w))) = None \<and> fst (snd (fst (GetProduct env ident w)))
                        then [] else [GetCall ident])"
proof -
  obtain r w1 where g: "GetProduct env ident w = (r, w1)"
    by (cases "GetProduct env ident w")
  show ?thesis
  proof (cases "snd (snd r)")
    case None
    show ?thesis
    proof (cases "fst (snd r)")
      case True
      with None g show ?thesis
        by (simp add: CachedService_Get_def Let_def case_prod_beta world_ops)
    next
      case False
      from Get_from_database_trace [of env "now w" ident w1]
      obtain evs where "trace (snd (Get_from_database env (now w) ident w1)) = trace w1 @ evs"
        "redis_cmds evs = []" "calls evs = [GetCall ident]" by blast
      with None False g show ?thesis
        by (simp add: CachedService_Get_def Let_def case_prod_beta)
    qed
  next
    case (Some e)
    define w2 where "w2 = logger_Log env [(''cache_error'', LErr e), (''operation'', LStr ''Get''), (''id'', LStr ident), (''fallback'', LStr ''database'')] w1"
    define w3 where "w3 = w2\<lparr>metrics := RecordCacheError ''Get'' (now w2 - now w) (metrics w2)\<rparr>"
    have t3: "trace w3 = trace w1 @ [Logged [(''cache_error'', LErr e), (''operation'', LStr ''Get''), (''id'', LStr ident), (''fallback'', LStr ''database'')]]"
      by (simp add: w3_def w2_def world_ops)
    from Get_from_database_trace [of env "now w" ident w3]
    obtain evs where evs: "trace (snd (Get_from_database env (now w) ident w3)) = trace w3 @ evs"
        "redis_cmds evs = []" "calls evs = [GetCall ident]" by blast
    have "trace (snd (CachedService_Get env ident w)) = trace w1 @ (Logged [(''cache_error'', LErr e), (''operation'', LStr ''Get''), (''id'', LStr ident), (''fallback'', LStr ''database'')] # evs)"
      using Some g evs(1) t3
      by (simp add: CachedService_Get_def Let_def case_prod_beta w2_def w3_def)
    moreover have "redis_cmds (Logged [(''cache_error'', LErr e), (''operation'', LStr ''Get''), (''id'', LStr ident), (''fallback'', LStr ''database'')] # evs) = []" "calls (Logged [(''cache_error'', LErr e), (''operation'', LStr ''Get''), (''id'', LStr ident), (''fallback'', LStr ''database'')] # evs) = [GetCall ident]"
      using evs(2,3) by simp_all
    ultimately show ?thesis
      using Some g by (intro exI [of _ "Logged [(''cache_error'', LErr e), (''operation'', LStr ''Get''), (''id'', LStr ident), (''fallback'', LStr ''database'')] # evs"]) simp
  qed
qed

lemma CachedService_Get_store:
  "store (snd (CachedService_Get env ident w)) = store (snd (GetProduct env ident w))"
  by (simp add: CachedService_Get_def Let_def case_prod_beta world_ops Get_from_database_store
        split: option.splits)

lemma CachedService_Get_goroutines:
  "goroutines (snd (CachedService_Get env ident w)) =
     (if (snd (snd (fst (GetProduct env ident w))) = None \<and> fst (snd (fst (GetProduct env ident w))))
         \<or> snd (svc_Get (service env) ident) \<noteq> None
      then goroutines w
      else goroutines w @ [SetProductTask ident (fst (svc_Get (service env) ident))])"
  by (auto simp add: CachedService_Get_def Let_def case_prod_beta world_ops
        Get_from_database_goroutines GetProduct_frame split: option.splits)

subsection \<open>Tags\<close>

lemma Tags_from_database_result:
  "fst (Tags_from_database env start w) = svc_Tags (service env)"
  by (simp add: Tags_from_database_def Let_def case_prod_beta prod_eq_iff split: option.splits)

lemma Tags_from_database_metrics:
  "\<exists>d. metrics (snd (Tags_from_database env start w)) = RecordCacheMiss ''Tags'' d (metrics w)"
  by (auto simp add: Tags_from_database_def world_ops Let_def case_prod_beta split: option.splits)

lemma Tags_from_database_goroutines:
  "goroutines (snd (Tags_from_database env start w)) =
     (case snd (svc_Tags (service env)) of
        None \<Rightarrow> goroutines w @ [SetTagsTask (fst (svc_Tags (service env)))]
      | Some e \<Rightarrow> goroutines w)"
  by (simp add: Tags_from_database_def world_ops Let_def case_prod_beta split: option.splits)

lemma Tags_from_database_trace:
  "\<exists>evs. trace (snd (Tags_from_database env start w)) = trace w @ evs
         \<and> redis_cmds evs = [] \<and> calls evs = [TagsCall]"
  by (simp add: Tags_from_database_def world_ops Let_def case_prod_beta split: option.splits)

lemma Tags_from_database_store:
  "store (snd (Tags_from_database env start w)) = store w"
  by (simp add: Tags_from_database_def world_ops Let_def case_prod_beta split: option.splits)

lemma GetTags_frame:
  "metrics (snd (GetTags env w)) = metrics w"
  "goroutines (snd (GetTags env w)) = goroutines w"
  by (simp_all add: GetTags_def cache_get_simps world_ops split: option.splits sum.splits)

lemma GetTags_result:
  "fst (GetTags env w) =
     (case fault env (GET tagsKey) of
        Some e \<Rightarrow> ([], False, if e = redis_Nil then None else Some e)
      | None \<Rightarrow>
          (case store w tagsKey of
             None \<Rightarrow> ([], False, None)
           | Some val \<Rightarrow> (case Unmarshal_tags env val of Inl e \<Rightarrow> ([], False, None) | Inr tags \<Rightarrow> (tags, True, None))))"
  by (simp add: GetTags_def cache_get_simps world_ops split: option.splits sum.splits)

lemma GetTags_trace:
  "\<exists>evs. trace (snd (GetTags env w)) = trace w @ evs \<and> calls evs = []
         \<and> set (redis_cmds evs) \<subseteq> {GET tagsKey, DEL tagsKey}
         \<and> (fault env (GET tagsKey) = None \<longrightarrow> (\<exists>val. store w tagsKey = Some val) \<longrightarrow> \<not> fst (snd (fst (GetTags env w)))
              \<longrightarrow> DEL tagsKey \<in> set (redis_cmds evs))"
  by (simp add: GetTags_def cache_get_simps world_ops split: option.splits sum.splits)

lemma GetTags_store:
  "store (snd (GetTags env w)) = store w \<or> store (snd (GetTags env w)) = (store w)(tagsKey := None)"
  by (simp add: GetTags_def cache_get_simps world_ops split: option.splits sum.splits)

lemma GetTags_purged:
  assumes "fault env (GET tagsKey) = None" "store w tagsKey = Some val"
      and "\<not> fst (snd (fst (GetTags env w)))" "fault env (DEL tagsKey) = None"
  shows "store (snd (GetTags env w)) tagsKey = None"
  using assms
  by (simp add: GetTags_def cache_get_simps world_ops split: option.splits sum.splits)

lemma CachedService_Tags_fallback:
  assumes "snd (snd (fst (GetTags env w))) \<noteq> None \<or> \<not> fst (snd (fst (GetTags env w)))"
  shows "fst (CachedService_Tags env w) = svc_Tags (service env)"
  using assms
  by (auto simp add: CachedService_Tags_def Let_def case_prod_beta Tags_from_database_result
        split: option.splits)

lemma CachedService_Tags_hit:
  assumes "snd (snd (fst (GetTags env w))) = None" "fst (snd (fst (GetTags env w)))"
  shows "fst (CachedService_Tags env w) = (fst (fst (GetTags env w)), None)"
  using assms
  by (simp add: CachedService_Tags_def Let_def case_prod_beta)

lemma CachedService_Tags_metrics:
  "\<exists>d1 d. metrics (snd (CachedService_Tags env w)) =
     (case snd (snd (fst (GetTags env w))) of
        Some e \<Rightarrow> RecordCacheMiss ''Tags'' d (RecordCacheError ''Tags'' d1 (metrics w))
      | None \<Rightarrow> if fst (snd (fst (GetTags env w))) then RecordCacheHit ''Tags'' d (metrics w)
                else RecordCacheMiss ''Tags'' d (metrics w))"
proof -
  obtain r w1 where g: "GetTags env w = (r, w1)"
    by (cases "GetTags env w")
  have m1: "metrics w1 = metrics w"
    using GetTags_frame(1) [of env w] g by simp
  show ?thesis
  proof (cases "snd (snd r)")
    case None
    show ?thesis
    proof (cases "fst (snd r)")
      case True
      with None g m1 show ?thesis
        by (auto simp add: CachedService_Tags_def Let_def case_prod_beta world_ops)
    next
      case False
      from Tags_from_database_metrics [of env "now w" w1]
      obtain d where "metrics (snd (Tags_from_database env (now w) w1))
         = RecordCacheMiss ''Tags'' d (metrics w1)" ..
      with None False g m1 show ?thesis
        by (auto simp add: CachedService_Tags_def Let_def case_prod_beta)
    qed
  next
    case (Some e)
    define w2 where "w2 = logger_Log env [(''cache_error'', LErr e), (''operation'', LStr ''Tags''), (''fallback'', LStr ''database'')] w1"
    define w3 where "w3 = w2\<lparr>metrics := RecordCacheError ''Tags'' (now w2 - now w) (metrics w2)\<rparr>"
    have m3: "metrics w3 = RecordCacheError ''Tags'' (now w2 - now w) (metrics w)"
      by (simp add: w3_def w2_def world_ops m1)
    from Tags_from_database_metrics [of env "now w" w3]
    obtain d where "metrics (snd (Tags_from_database env (now w) w3))
         = RecordCacheMiss ''Tags'' d (metrics w3)" ..
    with Some g m3 show ?thesis
      by (auto simp add: CachedService_Tags_def Let_def case_prod_beta w2_def w3_def)
  qed
qed

lemma CachedService_Tags_trace:
  "\<exists>evs. trace (snd (CachedService_Tags env w)) = trace (snd (GetTags env w)) @ evs
         \<and> redis_cmds evs = []
         \<and> calls evs = (if snd (snd (fst (GetTags env w))) = None \<and> fst (snd (fst (GetTags env w)))
                        then [] else [TagsCall])"
proof -
  obtain r w1 where g: "GetTags env w = (r, w1)"
    by (cases "GetTags env w")
  show ?thesis
  proof (cases "snd (snd r)")
    case None
    show ?thesis
    proof (cases "fst (snd r)")
      case True
      with None g show ?thesis
        by (simp add: CachedService_Tags_def Let_def case_prod_beta world_ops)
    next
      case False
      from Tags_from_database_trace [of env "now w" w1]
      obtain evs where "trace (snd (Tags_from_database env (now w) w1)) = trace w1 @ evs"
        "redis_cmds evs = []" "calls evs = [TagsCall]" by blast
      with None False g show ?thesis
        by (simp add: CachedService_Tags_def Let_def case_prod_beta)
    qed
  next
    case (Some e)
    define w2 where "w2 = logger_Log env [(''cache_error'', LErr e), (''operation'', LStr ''Tags''), (''fallback'', LStr ''database'')] w1"
    define w3 where "w3 = w2\<lparr>metrics := RecordCacheError ''Tags'' (now w2 - now w) (metrics w2)\<rparr>"
    have t3: "trace w3 = trace w1 @ [Logged [(''cache_error'', LErr e), (''operation'', LStr ''Tags''), (''fallback'', LStr ''database'')]]"
      by (simp add: w3_def w2_def world_ops)
    from Tags_from_database_trace [of env "now w" w3]
    obtain evs where evs: "trace (snd (Tags_from_database env (now w) w3)) = trace w3 @ evs"
        "redis_cmds evs = []" "calls evs = [TagsCall]" by blast
    have "trace (snd (CachedService_Tags env w)) = trace w1 @ (Logged [(''cache_error'', LErr e), (''operation'', LStr ''Tags''), (''fallback'', LStr ''database'')] # evs)"
      using Some g evs(1) t3
      by (simp add: CachedService_Tags_def Let_def case_prod_beta w2_def w3_def)
    moreover have "redis_cmds (Logged [(''cache_error'', LErr e), (''operation'', LStr ''Tags''), (''fallback'', LStr ''database'')] # evs) = []" "calls (Logged [(''cache_error'', LErr e), (''operation'', LStr ''Tags''), (''fallback'', LStr ''database'')] # evs) = [TagsCall]"
      using evs(2,3) by simp_all
    ultimately show ?thesis
      using Some g by (intro exI [of _ "Logged [(''cache_error'', LErr e), (''operation'', LStr ''Tags''), (''fallback'', LStr ''database'')] # evs"]) simp
  qed
qed

lemma CachedService_Tags_store:
  "store (snd (CachedService_Tags env w)) = store (snd (GetTags env w))"
  by (simp add: CachedService_Tags_def Let_def case_prod_beta world_ops Tags_from_database_store
        split: option.splits)

lemma CachedService_Tags_goroutines:
  "goroutines (snd (CachedService_Tags env w)) =
     (if (snd (snd (fst (GetTags env w))) = None \<and> fst (snd (fst (GetTags env w))))
         \<or> snd (svc_Tags (service env)) \<noteq> None
      then goroutines w
      else goroutines w @ [SetTagsTask (fst (svc_Tags (service env)))])"
  by (auto simp add: CachedService_Tags_def Let_def case_prod_beta world_ops
        Tags_from_database_goroutines GetTags_frame split: option.splits)
subsection \<open>Running the model on the test setting\<close>

lemmas run_defs =
  CachedService_List_def CachedService_Count_def CachedService_Get_def CachedService_Tags_def
  List_from_database_def Count_from_database_def Get_from_database_def Tags_from_database_def
  GetProducts_def GetCount_def GetProduct_def GetTags_def
  SetProducts_def SetCount_def SetProduct_def SetTags_def
  client_Get_def client_Set_def client_Del_def logger_Log_def emit_def go_def
  productListKey_def countKey_def productKey_def tagsKey_def print_verb_def
  RecordCacheHit_def RecordCacheMiss_def RecordCacheError_def incrementOperationCounter_def
  NewCacheMetrics_def Milliseconds_def go_div_def new_events_def Let_def

lemmas stub_defs = stub_env_def stub_service_def redis_up_def redis_down_def world0_def
  sock1_def Sock_zero_def warm_store_def corrupt_store_def

lemmas atoi_defs = Atoi_def ParseInt_def ParseUint_def maxUint64_def atou_def digit_val_def is_digit_def Itoa_def utoa.simps digit_def

subsection \<open>Decimal texts\<close>

lemma digit_cases:
  "d < (10::nat) \<Longrightarrow> d = 0 \<or> d = 1 \<or> d = 2 \<or> d = 3 \<or> d = 4 \<or> d = 5 \<or> d = 6 \<or> d = 7 \<or> d = 8 \<or> d = 9"
  by arith

lemma digit_val_digit: "d < 10 \<Longrightarrow> digit_val (digit d) = d"
  using digit_cases [of d] by (auto simp add: digit_def digit_val_def)

lemma is_digit_digit: "d < 10 \<Longrightarrow> is_digit (digit d)"
  using digit_cases [of d] by (auto simp add: digit_def is_digit_def)

lemma is_digit_not_sep: "is_digit c \<Longrightarrow> c \<noteq> CHR '':'' \<and> c \<noteq> CHR ''-'' \<and> c \<noteq> CHR ''+'' \<and> c \<noteq> CHR '',''"
  by (auto simp add: is_digit_def)

lemma atou_snoc: "atou (ds @ [c]) = 10 * atou ds + digit_val c"
  by (simp add: atou_def)

lemma atou_utoa: "atou (utoa n) = n"
proof (induction n rule: utoa.induct)
  case (1 n)
  show ?case
  proof (cases "n < 10")
    case True
    then show ?thesis by (simp add: utoa.simps [of n] atou_def digit_val_digit)
  next
    case False
    with 1 have "atou (utoa (n div 10)) = n div 10" by simp
    with False show ?thesis
      by (simp add: utoa.simps [of n] atou_snoc digit_val_digit)
  qed
qed

lemma utoa_digits: "list_all is_digit (utoa n)"
proof (induction n rule: utoa.induct)
  case (1 n)
  show ?case
  proof (cases "n < 10")
    case True
    then show ?thesis by (simp add: utoa.simps [of n] is_digit_digit)
  next
    case False
    with 1 have "list_all is_digit (utoa (n div 10))" by simp
    with False show ?thesis
      by (simp add: utoa.simps [of n] is_digit_digit)
  qed
qed

lemma utoa_not_Nil: "utoa n \<noteq> []"
  by (subst utoa.simps) simp

lemma utoa_inj: "utoa a = utoa b \<Longrightarrow> a = b"
  by (metis atou_utoa)

lemma hd_utoa_digit: "is_digit (hd (utoa n))"
  using utoa_digits [of n] utoa_not_Nil [of n] by (cases "utoa n") simp_all

lemma Itoa_inj: "Itoa a = Itoa b \<Longrightarrow> a = b"
proof -
  assume eq: "Itoa a = Itoa b"
  have nm: "utoa n \<noteq> CHR ''-'' # xs" for n xs
    using hd_utoa_digit [of n] is_digit_not_sep by (cases "utoa n") auto
  have "sint a = sint b"
  proof (cases "sint a < 0")
    case True
    show ?thesis
    proof (cases "sint b < 0")
      case True
      with \<open>sint a < 0\<close> eq have "nat (- sint a) = nat (- sint b)"
        by (simp add: Itoa_def utoa_inj)
      with True \<open>sint a < 0\<close> show ?thesis by simp
    next
      case False
      with \<open>sint a < 0\<close> eq nm show ?thesis by (simp add: Itoa_def) metis
    qed
  next
    case False
    show ?thesis
    proof (cases "sint b < 0")
      case True
      with False eq nm show ?thesis by (simp add: Itoa_def)
    next
      case nb: False
      with False eq have "nat (sint a) = nat (sint b)"
        by (simp add: Itoa_def utoa_inj)
      with False nb show ?thesis by simp
    qed
  qed
  then show ?thesis by (rule signed_word_eqI)
qed

lemma Itoa_no_colon: "CHR '':'' \<notin> set (Itoa i)"
  using utoa_digits is_digit_not_sep
  by (auto simp add: Itoa_def list_all_iff)

lemma sint64_bounds: "- (2 ^ 63) \<le> sint (i :: int64)" "sint (i :: int64) < 2 ^ 63"
  using sint_ge [of i] sint_lt [of i] by simp_all

lemma atou_ge: "n \<le> foldl (\<lambda>n c. 10 * n + digit_val c) n ds"
proof (induction ds arbitrary: n)
  case Nil
  show ?case by simp
next
  case (Cons c cs)
  have "n \<le> 10 * n + digit_val c" by simp
  also have "\<dots> \<le> foldl (\<lambda>n c. 10 * n + digit_val c) (10 * n + digit_val c) cs"
    by (rule Cons.IH)
  finally show ?case by simp
qed

lemma ParseUint_loop_digits:
  "list_all is_digit ds \<Longrightarrow> foldl (\<lambda>n c. 10 * n + digit_val c) n ds \<le> maxUint64
   \<Longrightarrow> ParseUint_loop s0 ds n = (foldl (\<lambda>n c. 10 * n + digit_val c) n ds, None)"
proof (induction ds arbitrary: n)
  case Nil
  show ?case by simp
next
  case (Cons c cs)
  have "10 * n + digit_val c \<le> foldl (\<lambda>n c. 10 * n + digit_val c) (10 * n + digit_val c) cs"
    by (rule atou_ge)
  with Cons.prems(2) have le: "10 * n + digit_val c \<le> maxUint64" by simp
  then have "n < maxUint64 div 10 + 1" by (simp add: maxUint64_def)
  with Cons le show ?case by (simp add: mult.commute)
qed

lemma ParseUint_digits:
  "ds \<noteq> [] \<Longrightarrow> list_all is_digit ds \<Longrightarrow> atou ds \<le> maxUint64 \<Longrightarrow> ParseUint ds = (atou ds, None)"
  by (simp add: ParseUint_def atou_def ParseUint_loop_digits)

text \<open>The two paths of \<open>Atoi\<close> agree on a signed decimal text within the range.\<close>

lemma Atoi_negative:
  assumes "ds \<noteq> []" "list_all is_digit ds" "atou ds \<le> 2 ^ 63"
  shows "Atoi (CHR ''-'' # ds) = (- of_nat (atou ds), None)"
proof -
  have "atou ds \<le> maxUint64" using assms(3) by (simp add: maxUint64_def)
  with assms have "ParseInt (CHR ''-'' # ds) = (- of_nat (atou ds), None)"
    by (simp add: ParseInt_def ParseUint_digits)
  with assms show ?thesis by (simp add: Atoi_def)
qed

lemma Atoi_positive:
  assumes "ds \<noteq> []" "list_all is_digit ds" "atou ds < 2 ^ 63"
  shows "Atoi ds = (of_nat (atou ds), None)"
proof -
  obtain c cs where ccs: "ds = c # cs" using assms(1) by (cases ds) auto
  with assms(2) have "is_digit c" by simp
  then have c: "c \<noteq> CHR ''-''" "c \<noteq> CHR ''+''" using is_digit_not_sep by auto
  have "atou ds \<le> maxUint64" using assms(3) by (simp add: maxUint64_def)
  with assms have "ParseUint ds = (atou ds, None)" by (simp add: ParseUint_digits)
  with assms(3) c have "ParseInt ds = (of_nat (atou ds), None)"
    by (simp add: ParseInt_def ccs)
  with assms c show ?thesis by (simp add: Atoi_def ccs)
qed

lemma Atoi_Itoa: "Atoi (Itoa i) = (i, None)"
proof (cases "sint i < 0")
  case True
  define n where "n = nat (- sint i)"
  have n: "int n = - sint i" using True by (simp add: n_def)
  have le: "n \<le> 2 ^ 63"
    using sint64_bounds(1) [of i] n by (simp add: nat_le_iff n_def)
  have "Atoi (CHR ''-'' # utoa n) = (- of_nat n, None)"
    using le Atoi_negative [of "utoa n"] by (simp add: utoa_not_Nil utoa_digits atou_utoa)
  moreover have "- (of_nat n :: int64) = i"
  proof -
    have "- (of_nat n :: int64) = of_int (- int n)" by simp
    also have "\<dots> = i" unfolding n by simp
    finally show ?thesis .
  qed
  ultimately show ?thesis
    using True by (simp add: Itoa_def n_def [symmetric])
next
  case False
  define n where "n = nat (sint i)"
  have n: "int n = sint i" using False by (simp add: n_def)
  have le: "n < 2 ^ 63"
    using sint64_bounds(2) [of i] n by (simp add: n_def nat_less_iff)
  have "Atoi (utoa n) = (of_nat n, None)"
    using le Atoi_positive [of "utoa n"] by (simp add: utoa_not_Nil utoa_digits atou_utoa)
  moreover have "(of_nat n :: int64) = i"
  proof -
    have "(of_nat n :: int64) = of_int (int n)" by simp
    also have "\<dots> = i" unfolding n by simp
    finally show ?thesis .
  qed
  ultimately show ?thesis
    using False by (simp add: Itoa_def n_def [symmetric])
qed

text \<open>A digit that no longer fits is a range error even when a byte that is no digit
  follows it.\<close>

lemma Atoi_examples:
  "Atoi ''7'' = (7, None)" "Atoi ''seven'' = (0, Some (ErrSyntax ''seven''))"
  "Atoi ''-9223372036854775808'' = (- 9223372036854775808, None)"
  "Atoi ''9223372036854775808'' = (9223372036854775807, Some (ErrRange ''9223372036854775808''))"
  "Atoi ''99999999999999999999x'' = (9223372036854775807, Some (ErrRange ''99999999999999999999x''))"
  "Atoi ''-99999999999999999999x'' = (- 9223372036854775808, Some (ErrRange ''-99999999999999999999x''))"
  "Atoi ''9999999999999999999x'' = (0, Some (ErrSyntax ''9999999999999999999x''))"
  "Atoi ''+'' = (0, Some (ErrSyntax ''+''))" "Atoi [] = (0, Some (ErrSyntax []))"
  "Atoi ''+12'' = (12, None)"
  by (simp_all add: Atoi_def ParseInt_def ParseUint_def maxUint64_def atou_def digit_val_def is_digit_def)

lemma split_at_first:
  "c \<notin> set a \<Longrightarrow> c \<notin> set b \<Longrightarrow> a @ c # r = b @ c # r' \<Longrightarrow> a = b \<and> r = r'"
proof (induction a arbitrary: b)
  case Nil
  then show ?case by (cases b) auto
next
  case (Cons x a)
  then show ?case by (cases b) auto
qed

lemma split_at_last:
  assumes "c \<notin> set s" "c \<notin> set s'" "xs @ c # s = ys @ c # s'"
  shows "xs = ys \<and> s = s'"
proof -
  from assms(3) have "rev (xs @ c # s) = rev (ys @ c # s')" by simp
  then have "rev s @ c # rev xs = rev s' @ c # rev ys" by simp
  with assms(1,2) have "rev s = rev s' \<and> rev xs = rev ys"
    by (intro split_at_first [of c]) simp_all
  then show ?thesis by simp
qed

lemma Join_Cons_Cons: "Join (e # e' # es) sep = e @ sep @ Join (e' # es) sep"
  by simp

lemma Join_no_comma:
  assumes "CHR '','' \<notin> set (Join ts '','')"
  shows "ts = [] \<or> ts = [Join ts '','']"
proof (cases ts)
  case Nil
  then show ?thesis by simp
next
  case (Cons t ts')
  with assms show ?thesis by (cases ts') auto
qed

lemma Join_inj:
  assumes "\<forall>t \<in> set xs. t \<noteq> [] \<and> CHR '','' \<notin> set t"
      and "\<forall>t \<in> set ys. t \<noteq> [] \<and> CHR '','' \<notin> set t"
      and "Join xs '','' = Join ys '',''"
  shows "xs = ys"
  using assms
proof (induction xs arbitrary: ys)
  case Nil
  then show ?case by (cases ys) auto
next
  case (Cons x xs)
  note outer = Cons
  show ?case
  proof (cases ys)
    case Nil
    with outer show ?thesis by auto
  next
    case (Cons y ys')
    show ?thesis
    proof (cases xs)
      case xn: Nil
      show ?thesis
      proof (cases ys')
        case Nil
        with xn Cons outer show ?thesis by simp
      next
        case (Cons y' ys'')
        with xn \<open>ys = y # ys'\<close> outer(4) have "x = y @ '','' @ Join (y' # ys'') '',''" by simp
        then have "CHR '','' \<in> set x" by simp
        with outer(2) show ?thesis by simp
      qed
    next
      case xc: (Cons x' xs')
      show ?thesis
      proof (cases ys')
        case Nil
        with xc \<open>ys = y # ys'\<close> outer(4) have "y = x @ '','' @ Join (x' # xs') '',''" by simp
        then have "CHR '','' \<in> set y" by simp
        with outer(3) \<open>ys = y # ys'\<close> show ?thesis by simp
      next
        case (Cons y' ys'')
        with xc \<open>ys = y # ys'\<close> outer(4)
        have "x @ CHR '','' # Join xs '','' = y @ CHR '','' # Join ys' '',''" by simp
        moreover have "CHR '','' \<notin> set x" "CHR '','' \<notin> set y"
          using outer(2,3) \<open>ys = y # ys'\<close> by simp_all
        ultimately have "x = y \<and> Join xs '','' = Join ys' '',''"
          by (intro split_at_first [of "CHR '',''"]) simp_all
        moreover from this outer(2,3) \<open>ys = y # ys'\<close> have "xs = ys'"
          by (intro outer(1)) simp_all
        ultimately show ?thesis using \<open>ys = y # ys'\<close> by simp
      qed
    qed
  qed
qed

subsection \<open>Joining and the shape of the keys\<close>

lemma Join_comma_joined: "Join ts '','' = comma_joined ts"
  by (induction ts rule: comma_joined.induct) simp_all

lemma tags_or_all_Join:
  "tags_or_all tags = (if Join tags '','' = [] then ''all'' else Join tags '','')"
  by (simp add: tags_or_all_def Join_comma_joined)

lemma productListKey_eq:
  "productListKey tags order pageNum pageSize =
     ''catalogue:products:'' @ tags_or_all tags @ '':order:'' @ order
       @ '':page:'' @ Itoa pageNum @ '':size:'' @ Itoa pageSize"
  by (simp add: productListKey_def tags_or_all_Join Let_def print_verb_def)

lemma countKey_eq: "countKey tags = ''catalogue:count:'' @ tags_or_all tags"
  by (simp add: countKey_def tags_or_all_Join Let_def print_verb_def)

lemma productKey_eq: "productKey ident = ''catalogue:product:'' @ ident"
  by (simp add: productKey_def print_verb_def)

lemma Join_Nil_iff:
  "\<forall>t \<in> set ts. t \<noteq> [] \<Longrightarrow> Join ts sep = [] \<longleftrightarrow> ts = []"
  by (cases ts) auto

lemma tags_or_all_inj:
  assumes "joinable xs" "joinable ys" "tags_or_all xs = tags_or_all ys"
  shows "xs = ys"
proof -
  have ne: "\<forall>t \<in> set xs. t \<noteq> []" "\<forall>t \<in> set ys. t \<noteq> []"
    using assms(1,2) by (simp_all add: joinable_def)
  have not_all: "Join ts '','' \<noteq> ''all''" if "joinable ts" for ts
  proof
    assume a: "Join ts '','' = ''all''"
    then have "CHR '','' \<notin> set (Join ts '','')" by simp
    then have "ts = [] \<or> ts = [Join ts '','']" by (rule Join_no_comma)
    with a have "ts = [] \<or> ts = [''all'']" by simp
    with a that show False by (auto simp add: joinable_def)
  qed
  show ?thesis
  proof (cases "Join xs '','' = []")
    case True
    then have x: "xs = []" using ne(1) by (simp add: Join_Nil_iff)
    have "Join ys '','' = []"
    proof (rule ccontr)
      assume "Join ys '','' \<noteq> []"
      with True assms(3) have "Join ys '','' = ''all''" by (simp add: tags_or_all_Join)
      with not_all [OF assms(2)] show False by simp
    qed
    then have "ys = []" using ne(2) by (simp add: Join_Nil_iff)
    with x show ?thesis by simp
  next
    case False
    have "Join ys '','' \<noteq> []"
    proof
      assume "Join ys '','' = []"
      with False assms(3) have "Join xs '','' = ''all''" by (simp add: tags_or_all_Join)
      with not_all [OF assms(1)] show False by simp
    qed
    with False assms(3) have "Join xs '','' = Join ys '',''" by (simp add: tags_or_all_Join)
    with assms(1,2) show ?thesis by (intro Join_inj) (simp_all add: joinable_def)
  qed
qed

lemma tags_or_all_colon_free:
  assumes "colon_free ts"
  shows "CHR '':'' \<notin> set (tags_or_all ts)"
proof -
  have "CHR '':'' \<notin> set (Join ts '','')"
    using assms by (cases ts) (auto simp add: colon_free_def)
  then show ?thesis by (simp add: tags_or_all_Join)
qed

lemma productListKey_inj:
  assumes j: "joinable t1" "joinable t2" and c: "colon_free t1" "colon_free t2"
      and eq: "productListKey t1 o1 n1 s1 = productListKey t2 o2 n2 s2"
  shows "t1 = t2 \<and> o1 = o2 \<and> n1 = n2 \<and> s1 = s2"
proof -
  from eq have e1:
    "tags_or_all t1 @ CHR '':'' # (''order:'' @ o1 @ '':page:'' @ Itoa n1 @ '':size:'' @ Itoa s1)
     = tags_or_all t2 @ CHR '':'' # (''order:'' @ o2 @ '':page:'' @ Itoa n2 @ '':size:'' @ Itoa s2)"
    by (simp add: productListKey_eq)
  have "tags_or_all t1 = tags_or_all t2
        \<and> ''order:'' @ o1 @ '':page:'' @ Itoa n1 @ '':size:'' @ Itoa s1
          = ''order:'' @ o2 @ '':page:'' @ Itoa n2 @ '':size:'' @ Itoa s2"
    using tags_or_all_colon_free [OF c(1)] tags_or_all_colon_free [OF c(2)] e1
    by (rule split_at_first)
  then have t: "tags_or_all t1 = tags_or_all t2"
    and e2: "(o1 @ '':page:'' @ Itoa n1 @ '':size'') @ CHR '':'' # Itoa s1
           = (o2 @ '':page:'' @ Itoa n2 @ '':size'') @ CHR '':'' # Itoa s2"
    by simp_all
  have "o1 @ '':page:'' @ Itoa n1 @ '':size'' = o2 @ '':page:'' @ Itoa n2 @ '':size''
        \<and> Itoa s1 = Itoa s2"
    using Itoa_no_colon [of s1] Itoa_no_colon [of s2] e2 by (rule split_at_last)
  then have s: "Itoa s1 = Itoa s2"
    and e3: "(o1 @ '':page'') @ CHR '':'' # (Itoa n1 @ '':size'')
           = (o2 @ '':page'') @ CHR '':'' # (Itoa n2 @ '':size'')"
    by simp_all
  have e4: "(o1 @ '':page'') @ CHR '':'' # Itoa n1 = (o2 @ '':page'') @ CHR '':'' # Itoa n2"
  proof -
    from e3 have "((o1 @ '':page'') @ CHR '':'' # Itoa n1) @ '':size''
                = ((o2 @ '':page'') @ CHR '':'' # Itoa n2) @ '':size''" by simp
    then show ?thesis by (simp only: append_same_eq)
  qed
  have "o1 @ '':page'' = o2 @ '':page'' \<and> Itoa n1 = Itoa n2"
    using Itoa_no_colon [of n1] Itoa_no_colon [of n2] e4 by (rule split_at_last)
  then have n: "Itoa n1 = Itoa n2" and o: "o1 = o2" by simp_all
  from t j have "t1 = t2" by (intro tags_or_all_inj)
  with o n s show ?thesis by (simp add: Itoa_inj)
qed

lemma countKey_inj:
  "joinable t1 \<Longrightarrow> joinable t2 \<Longrightarrow> countKey t1 = countKey t2 \<Longrightarrow> t1 = t2"
  by (simp add: countKey_eq tags_or_all_inj)

subsection \<open>The metrics recorder\<close>


lemma sint_of_nat_small: "n < 2 ^ 63 \<Longrightarrow> sint (word_of_nat n :: 64 word) = int n"
proof -
  assume a: "n < 2 ^ 63"
  have "sint (word_of_nat n :: 64 word) = signed_take_bit 63 (int n)"
    by transfer simp
  also have "\<dots> = int n"
    using a by (intro signed_take_bit_int_eq_self) auto
  finally show ?thesis .
qed

lemma go_gt0_of_nat: "n < 2 ^ 63 \<Longrightarrow> go_gt0 (word_of_nat n) = (0 < n)"
  by (simp add: go_gt0_def sint_of_nat_small)

lemmas record_defs = RecordCacheHit_def RecordCacheMiss_def RecordCacheError_def incrementOperationCounter_def

lemma total_step: "totalRequests (record_sample m s) = totalRequests m + 1"
  by (cases "(m, s)" rule: record_sample.cases) (simp_all add: record_defs)

lemma totalRequests_record_all:
  "totalRequests (record_all m ss) = totalRequests m + of_nat (length ss)"
  unfolding record_all_def
  by (induction ss arbitrary: m) (simp_all add: total_step)

lemma cacheHits_step: "cacheHits (record_sample m s) = cacheHits m + (if fst s = Hit then 1 else 0)"
  by (cases "(m, s)" rule: record_sample.cases) (simp_all add: record_defs)

lemma cacheHits_record_all:
  "cacheHits (record_all m ss) = cacheHits m + of_nat (length (samples_of Hit ss))"
  unfolding record_all_def samples_of_def
  by (induction ss arbitrary: m) (simp_all add: cacheHits_step)

lemma totalResponseTime_step: "totalResponseTime (record_sample m s) = totalResponseTime m + snd (snd s)"
  by (cases "(m, s)" rule: record_sample.cases) (simp_all add: record_defs)

lemma totalResponseTime_record_all:
  "totalResponseTime (record_all m ss) = totalResponseTime m + sum_list (durations ss)"
  unfolding record_all_def durations_def
  by (induction ss arbitrary: m) (simp_all add: totalResponseTime_step add.assoc)

lemma dbResponseTime_step: "dbResponseTime (record_sample m s) = dbResponseTime m + (if fst s = Hit then 0 else snd (snd s))"
  by (cases "(m, s)" rule: record_sample.cases) (simp_all add: record_defs)

lemma dbResponseTime_record_all:
  "dbResponseTime (record_all m ss) =
     dbResponseTime m + sum_list (durations (samples_of Miss ss)) + sum_list (durations (samples_of Error ss))"
  unfolding record_all_def durations_def samples_of_def
  by (induction ss arbitrary: m) (auto simp add: dbResponseTime_step add.assoc add.left_commute intro: outcome.exhaust)

lemma length_split: "length ss = length (samples_of Hit ss) + length (samples_of Miss ss) + length (samples_of Error ss)"
  unfolding samples_of_def
proof (induction ss)
  case Nil show ?case by simp
next
  case (Cons s ss)
  then show ?case by (cases "fst s") simp_all
qed

lemma cacheMisses_step: "cacheMisses (record_sample m s) = cacheMisses m + (if fst s = Miss then 1 else 0)"
  by (cases "(m, s)" rule: record_sample.cases) (simp_all add: record_defs)

lemma cacheMisses_record_all:
  "cacheMisses (record_all m ss) = cacheMisses m + of_nat (length (samples_of Miss ss))"
  unfolding record_all_def samples_of_def
  by (induction ss arbitrary: m) (simp_all add: cacheMisses_step)

lemma cacheErrors_step: "cacheErrors (record_sample m s) = cacheErrors m + (if fst s = Error then 1 else 0)"
  by (cases "(m, s)" rule: record_sample.cases) (simp_all add: record_defs)

lemma cacheErrors_record_all:
  "cacheErrors (record_all m ss) = cacheErrors m + of_nat (length (samples_of Error ss))"
  unfolding record_all_def samples_of_def
  by (induction ss arbitrary: m) (simp_all add: cacheErrors_step)

lemma cacheResponseTime_step: "cacheResponseTime (record_sample m s) = cacheResponseTime m + (if fst s = Hit then snd (snd s) else 0)"
  by (cases "(m, s)" rule: record_sample.cases) (simp_all add: record_defs)

lemma cacheResponseTime_record_all:
  "cacheResponseTime (record_all m ss) = cacheResponseTime m + sum_list (durations (samples_of Hit ss))"
  unfolding record_all_def samples_of_def durations_def
  by (induction ss arbitrary: m) (simp_all add: cacheResponseTime_step add.assoc)

subsection \<open>Events between two worlds\<close>

lemma calls_new_events_hit:
  assumes tr: "\<exists>evs. trace w1 = trace w @ evs \<and> calls evs = [] \<and> P evs"
      and tr2: "\<exists>evs. trace w2 = trace w1 @ evs \<and> Q evs \<and> calls evs = []"
  shows "calls (new_events w w2) = []"
proof -
  from tr obtain e1 where e1: "trace w1 = trace w @ e1" "calls e1 = []" by blast
  from tr2 obtain e2 where e2: "trace w2 = trace w1 @ e2" "calls e2 = []" by blast
  from e1 e2 have "trace w2 = trace w @ (e1 @ e2)" by simp
  then have "new_events w w2 = e1 @ e2" by (rule new_events_append)
  with e1 e2 show ?thesis by simp
qed

lemma DEL_in_new_events:
  assumes "trace w1 = trace w @ e1" and "DEL k \<in> set (redis_cmds e1)"
      and "trace w2 = trace w1 @ e2"
  shows "DEL k \<in> set (redis_cmds (new_events w w2))"
proof -
  from assms have "trace w2 = trace w @ (e1 @ e2)" by simp
  then have "new_events w w2 = e1 @ e2" by (rule new_events_append)
  with assms(2) show ?thesis by simp
qed

lemma no_SET_new_events:
  assumes "trace w1 = trace w @ e1" and "set (redis_cmds e1) \<subseteq> {GET k, DEL k}"
      and "trace w2 = trace w1 @ e2" and "redis_cmds e2 = []"
  shows "list_all (\<lambda>c. \<not> is_SET c) (redis_cmds (new_events w w2))"
proof -
  from assms(1,3) have "trace w2 = trace w @ (e1 @ e2)" by simp
  then have "new_events w w2 = e1 @ e2" by (rule new_events_append)
  with assms(2,4) show ?thesis by (auto simp add: list_all_iff)
qed

subsection \<open>The writes and the warming loops\<close>

lemma client_Set_fst: "fst (client_Set env key val t w) = fault env (SET key val t)"
  by (simp add: client_Set_def Let_def split: option.splits)

lemma client_Set_trace: "trace (snd (client_Set env key val t w)) = trace w @ [Redis (SET key val t)]"
  by (simp add: client_Set_def emit_def Let_def split: option.splits)

text \<open>Whether a write fails is decided by the codec and by the client alone.\<close>

lemma SetProducts_fst:
  "fst (SetProducts env tags order pageNum pageSize products w) =
     (case Marshal_products env products of
        Inl e \<Rightarrow> Some e
      | Inr data \<Rightarrow> fault env (SET (productListKey tags order pageNum pageSize) data ttl))"
  by (simp add: SetProducts_def client_Set_def Let_def split: sum.splits option.splits)

lemma SetProduct_fst:
  "fst (SetProduct env ident product w) =
     (case Marshal_product env product of
        Inl e \<Rightarrow> Some e
      | Inr data \<Rightarrow> fault env (SET (productKey ident) data ttl))"
  by (simp add: SetProduct_def client_Set_def Let_def split: sum.splits option.splits)

lemmas warm_defs = warmTags_def warmProductListings_def warmIndividualProducts_def WarmCache_def
  warm_listing.simps listings_def ttl_def

lemma warming_view_append: "warming_view (a @ b) = warming_view a @ warming_view b"
  by (induction a rule: warming_view.induct) simp_all

text \<open>A write shows as its \<open>SET\<close>, if it gets that far; its own log records are the
  cache's, not the warmer's.\<close>

lemma SetProducts_view:
  "\<exists>evs. trace (snd (SetProducts env tags order pageNum pageSize products w)) = trace w @ evs
     \<and> warming_view evs =
         (case Marshal_products env products of
            Inl e \<Rightarrow> []
          | Inr data \<Rightarrow> [Redis (SET (productListKey tags order pageNum pageSize) data ttl)])"
  by (simp add: SetProducts_def client_Set_def world_ops Let_def split: sum.splits option.splits)

lemma SetCount_view:
  "\<exists>evs. trace (snd (SetCount env tags count w)) = trace w @ evs
     \<and> warming_view evs = [Redis (SET (countKey tags) (Itoa count) ttl)]"
  by (simp add: SetCount_def client_Set_def world_ops Let_def split: sum.splits option.splits)

lemma SetProduct_view:
  "\<exists>evs. trace (snd (SetProduct env ident product w)) = trace w @ evs
     \<and> warming_view evs =
         (case Marshal_product env product of
            Inl e \<Rightarrow> []
          | Inr data \<Rightarrow> [Redis (SET (productKey ident) data ttl)])"
  by (simp add: SetProduct_def client_Set_def world_ops Let_def split: sum.splits option.splits)

lemma SetTags_view:
  "\<exists>evs. trace (snd (SetTags env tags w)) = trace w @ evs
     \<and> warming_view evs =
         (case Marshal_tags env tags of
            Inl e \<Rightarrow> []
          | Inr data \<Rightarrow> [Redis (SET tagsKey data ttl)])"
  by (simp add: SetTags_def client_Set_def world_ops Let_def split: sum.splits option.splits)

lemma SetTags_fst:
  "fst (SetTags env tags w) =
     (case Marshal_tags env tags of
        Inl e \<Rightarrow> Some e
      | Inr data \<Rightarrow> fault env (SET tagsKey data ttl))"
  by (simp add: SetTags_def client_Set_def Let_def split: sum.splits option.splits)


lemma warm_listing_view:
  "\<exists>evs. trace (warm_listing env l w) = trace w @ evs
     \<and> warming_view evs = expected_listing_steps env l"
proof -
  obtain tags order pageNum pageSize where l: "l = (tags, order, pageNum, pageSize)"
    by (cases l)
  define w1 where "w1 = emit env (Call (ListCall tags order pageNum pageSize)) w"
  have t1: "trace w1 = trace w @ [Call (ListCall tags order pageNum pageSize)]"
    by (simp add: w1_def emit_def)
  obtain products err where svc: "svc_List (service env) tags order pageNum pageSize = (products, err)"
    by (cases "svc_List (service env) tags order pageNum pageSize")
  show ?thesis
  proof (cases err)
    case (Some e)
    with svc have "warm_listing env l w
        = logger_Log env [(''cache_warming'', LStr ''listing_error''), (''error'', LErr e),
                          (''tags'', LStrs tags)] w1"
      by (simp add: l warm_listing.simps w1_def Let_def)
    with Some svc t1 show ?thesis
      by (simp add: l logger_Log_def emit_def expected_listing_steps.simps)
  next
    case None
    obtain serr w2 where sp: "SetProducts env tags order pageNum pageSize products w1 = (serr, w2)"
      by (cases "SetProducts env tags order pageNum pageSize products w1")
    from SetProducts_view [of env tags order pageNum pageSize products w1] sp
    obtain e2 where e2: "trace w2 = trace w1 @ e2"
      "warming_view e2 = (case Marshal_products env products of
            Inl e \<Rightarrow> []
          | Inr data \<Rightarrow> [Redis (SET (productListKey tags order pageNum pageSize) data ttl)])"
      by auto
    from SetProducts_fst [of env tags order pageNum pageSize products w1] sp
    have serr: "serr = (case Marshal_products env products of
        Inl e \<Rightarrow> Some e
      | Inr data \<Rightarrow> fault env (SET (productListKey tags order pageNum pageSize) data ttl))"
      by simp
    show ?thesis
    proof (cases serr)
      case (Some e)
      with None svc sp have "warm_listing env l w
          = logger_Log env [(''cache_warming'', LStr ''listing_cache_error''), (''error'', LErr e),
                            (''tags'', LStrs tags)] w2"
        by (simp add: l warm_listing.simps w1_def Let_def)
      then have "trace (warm_listing env l w) = trace w @ (Call (ListCall tags order pageNum pageSize) # e2
           @ [Logged [(''cache_warming'', LStr ''listing_cache_error''), (''error'', LErr e),
                            (''tags'', LStrs tags)]])"
        using t1 e2(1) by (simp add: logger_Log_def emit_def)
      moreover have "warming_view (Call (ListCall tags order pageNum pageSize) # e2
           @ [Logged [(''cache_warming'', LStr ''listing_cache_error''), (''error'', LErr e),
                            (''tags'', LStrs tags)]]) = expected_listing_steps env l"
        using None svc Some serr e2(2)
        by (simp add: l warming_view_append expected_listing_steps.simps split: sum.splits)
      ultimately show ?thesis by blast
    next
      case sn: None
      define w3 where "w3 = emit env (Call (CountCall tags)) w2"
      have t3: "trace w3 = trace w2 @ [Call (CountCall tags)]"
        by (simp add: w3_def emit_def)
      define w4 where "w4 = (if snd (svc_Count (service env) tags) = None
                             then snd (SetCount env tags (fst (svc_Count (service env) tags)) w3) else w3)"
      have "\<exists>e4. trace w4 = trace w3 @ e4 \<and> warming_view e4 =
              (case svc_Count (service env) tags of
                       (count, Some e) \<Rightarrow> []
                     | (count, None) \<Rightarrow> [Redis (SET (countKey tags) (Itoa count) ttl)])"
      proof (cases "snd (svc_Count (service env) tags) = None")
        case True
        with SetCount_view [of env tags "fst (svc_Count (service env) tags)" w3]
        show ?thesis by (simp add: w4_def case_prod_beta)
      next
        case False
        then show ?thesis by (auto simp add: w4_def case_prod_beta)
      qed
      then obtain e4 where e4: "trace w4 = trace w3 @ e4"
         "warming_view e4 = (case svc_Count (service env) tags of
                       (count, Some e) \<Rightarrow> []
                     | (count, None) \<Rightarrow> [Redis (SET (countKey tags) (Itoa count) ttl)])" by blast
      have "warm_listing env l w
              = logger_Log env [(''cache_warming'', LStr ''listing_completed''),
                                (''tags'', LStrs tags), (''order'', LStr order),
                                (''pageNum'', LInt pageNum), (''pageSize'', LInt pageSize),
                                (''count'', LInt (of_nat (length products))),
                                (''duration_ms'', LInt (Milliseconds (now w4 - now w)))] w4"
        using None svc sp sn
        by (simp add: l warm_listing.simps w1_def w3_def w4_def Let_def case_prod_beta)
      then have "trace (warm_listing env l w) = trace w @ (Call (ListCall tags order pageNum pageSize) # e2
           @ Call (CountCall tags) # e4 @ [Logged [(''cache_warming'', LStr ''listing_completed''),
                                (''tags'', LStrs tags), (''order'', LStr order),
                                (''pageNum'', LInt pageNum), (''pageSize'', LInt pageSize),
                                (''count'', LInt (of_nat (length products))),
                                (''duration_ms'', LInt (Milliseconds (now w4 - now w)))]])"
        using t1 e2(1) t3 e4(1) by (simp add: logger_Log_def emit_def)
      moreover have "warming_view (Call (ListCall tags order pageNum pageSize) # e2
           @ Call (CountCall tags) # e4 @ [Logged [(''cache_warming'', LStr ''listing_completed''),
                                (''tags'', LStrs tags), (''order'', LStr order),
                                (''pageNum'', LInt pageNum), (''pageSize'', LInt pageSize),
                                (''count'', LInt (of_nat (length products))),
                                (''duration_ms'', LInt (Milliseconds (now w4 - now w)))]])
             = expected_listing_steps env l"
        using None svc sn serr e2(2) e4(2)
        by (simp add: l warming_view_append expected_listing_steps.simps split: sum.splits)
      ultimately show ?thesis by blast
    qed
  qed
qed

lemma warm_listings_view:
  "\<exists>evs. trace (foldl (\<lambda>w listing. warm_listing env listing w) w ls) = trace w @ evs
     \<and> warming_view evs = concat (map (expected_listing_steps env) ls)"
proof (induction ls arbitrary: w)
  case Nil
  show ?case by simp
next
  case (Cons l ls)
  from warm_listing_view [of env l w]
  obtain e1 where e1: "trace (warm_listing env l w) = trace w @ e1"
    "warming_view e1 = expected_listing_steps env l"
    by blast
  from Cons.IH [of "warm_listing env l w"]
  obtain e2 where e2:
    "trace (foldl (\<lambda>w listing. warm_listing env listing w) (warm_listing env l w) ls)
       = trace (warm_listing env l w) @ e2"
    "warming_view e2 = concat (map (expected_listing_steps env) ls)"
    by blast
  have "trace (foldl (\<lambda>w listing. warm_listing env listing w) w (l # ls)) = trace w @ (e1 @ e2)"
    using e1(1) e2(1) by simp
  moreover have "warming_view (e1 @ e2) = concat (map (expected_listing_steps env) (l # ls))"
    using e1(2) e2(2) by (simp add: warming_view_append)
  ultimately show ?case by blast
qed

lemma warmProductListings_view:
  "warming_view (new_events w (warmProductListings env w))
     = concat (map (expected_listing_steps env) listings)
       @ [Logged [(''cache_warming'', LStr ''listings_completed'')]]"
proof -
  define w1 where "w1 = foldl (\<lambda>w listing. warm_listing env listing w) w listings"
  from warm_listings_view [of env w listings]
  obtain evs where evs: "trace w1 = trace w @ evs"
    "warming_view evs = concat (map (expected_listing_steps env) listings)"
    unfolding w1_def by blast
  have "trace (warmProductListings env w)
          = trace w @ (evs @ [Logged [(''cache_warming'', LStr ''listings_completed''),
                                    (''duration_ms'', LInt (Milliseconds (now w1 - now w)))]])"
    using evs(1) by (simp add: warmProductListings_def w1_def [symmetric] Let_def world_ops)
  then have "new_events w (warmProductListings env w)
          = evs @ [Logged [(''cache_warming'', LStr ''listings_completed''),
                           (''duration_ms'', LInt (Milliseconds (now w1 - now w)))]]"
    by (rule new_events_append)
  with evs(2) show ?thesis by (simp add: warming_view_append)
qed

lemma warm_products_view:
  "\<exists>evs. trace (snd (warm_products env ps (warmed, w))) = trace w @ evs
     \<and> warming_view evs = concat (map (expected_product_steps env) ps)
     \<and> fst (warm_products env ps (warmed, w))
         = warmed + of_nat (length (filter (product_written env) ps))"
proof (induction ps arbitrary: warmed w)
  case Nil
  show ?case by simp
next
  case (Cons p ps)
  define w1 where "w1 = emit env (Call (GetCall (ID p))) w"
  have t1: "trace w1 = trace w @ [Call (GetCall (ID p))]"
    by (simp add: w1_def emit_def)
  obtain full err where svc: "svc_Get (service env) (ID p) = (full, err)"
    by (cases "svc_Get (service env) (ID p)")
  have step: "\<exists>warmed' w' e1. warm_products env (p # ps) (warmed, w) = warm_products env ps (warmed', w')
       \<and> trace w' = trace w @ e1 \<and> warming_view e1 = expected_product_steps env p
       \<and> warmed' = warmed + (if product_written env p then 1 else 0)"
  proof (cases err)
    case (Some e)
    define w' where "w' = logger_Log env [(''cache_warming'', LStr ''product_error''),
                            (''error'', LErr e), (''id'', LStr (ID p))] w1"
    have "warm_products env (p # ps) (warmed, w) = warm_products env ps (warmed, w')"
      using Some svc by (simp add: w1_def w'_def Let_def)
    moreover have "trace w' = trace w @ [Call (GetCall (ID p)),
        Logged [(''cache_warming'', LStr ''product_error''), (''error'', LErr e), (''id'', LStr (ID p))]]"
      by (simp add: w'_def t1 logger_Log_def emit_def)
    ultimately show ?thesis using Some svc
      by (intro exI conjI) (assumption, assumption,
            simp_all add: expected_product_steps_def product_written_def)
  next
    case None
    obtain serr w2 where sp: "SetProduct env (ID p) full w1 = (serr, w2)"
      by (cases "SetProduct env (ID p) full w1")
    from SetProduct_view [of env "ID p" full w1] sp
    obtain e2 where e2: "trace w2 = trace w1 @ e2"
       "warming_view e2 = (case Marshal_product env full of
            Inl e \<Rightarrow> []
          | Inr data \<Rightarrow> [Redis (SET (productKey (ID p)) data ttl)])" by auto
    from SetProduct_fst [of env "ID p" full w1] sp
    have serr: "serr = (case Marshal_product env full of
        Inl e \<Rightarrow> Some e
      | Inr data \<Rightarrow> fault env (SET (productKey (ID p)) data ttl))"
      by simp
    show ?thesis
    proof (cases serr)
      case (Some e)
      define w' where "w' = logger_Log env [(''cache_warming'', LStr ''product_cache_error''),
                            (''error'', LErr e), (''id'', LStr (ID p))] w2"
      have "warm_products env (p # ps) (warmed, w) = warm_products env ps (warmed, w')"
        using Some None svc sp by (simp add: w1_def w'_def Let_def)
      moreover have "trace w' = trace w @ (Call (GetCall (ID p)) # e2 @
          [Logged [(''cache_warming'', LStr ''product_cache_error''), (''error'', LErr e), (''id'', LStr (ID p))]])"
        by (simp add: w'_def t1 e2 logger_Log_def emit_def)
      moreover have "warming_view (Call (GetCall (ID p)) # e2 @
          [Logged [(''cache_warming'', LStr ''product_cache_error''), (''error'', LErr e), (''id'', LStr (ID p))]])
          = expected_product_steps env p"
        using None svc Some serr e2(2)
        by (simp add: warming_view_append expected_product_steps_def split: sum.splits)
      moreover have "\<not> product_written env p"
        using None svc Some serr by (simp add: product_written_def split: sum.splits)
      ultimately show ?thesis by (intro exI conjI) (assumption, assumption, simp_all)
    next
      case sn: None
      have "warm_products env (p # ps) (warmed, w) = warm_products env ps (warmed + 1, w2)"
        using sn None svc sp by (simp add: w1_def Let_def)
      moreover have "trace w2 = trace w @ (Call (GetCall (ID p)) # e2)"
        by (simp add: t1 e2)
      moreover have "warming_view (Call (GetCall (ID p)) # e2) = expected_product_steps env p"
        using None svc sn serr e2(2)
        by (simp add: warming_view_append expected_product_steps_def split: sum.splits)
      moreover have "product_written env p"
        using None svc sn serr by (simp add: product_written_def split: sum.splits)
      ultimately show ?thesis by (intro exI conjI) (assumption, assumption, simp_all)
    qed
  qed
  then obtain warmed' w' e1 where s:
    "warm_products env (p # ps) (warmed, w) = warm_products env ps (warmed', w')"
    "trace w' = trace w @ e1" "warming_view e1 = expected_product_steps env p"
    "warmed' = warmed + (if product_written env p then 1 else 0)"
    by blast
  from Cons.IH [of warmed' w']
  obtain e2 where e2: "trace (snd (warm_products env ps (warmed', w'))) = trace w' @ e2"
    "warming_view e2 = concat (map (expected_product_steps env) ps)"
    "fst (warm_products env ps (warmed', w'))
         = warmed' + of_nat (length (filter (product_written env) ps))"
    by blast
  show ?case
    using s e2 by (intro exI [of _ "e1 @ e2"]) (simp add: warming_view_append)
qed

lemma warmIndividualProducts_view:
  "warming_view (new_events w (warmIndividualProducts env w)) = expected_products_steps env"
proof -
  obtain products err where svc: "svc_List (service env) [] [] 1 10 = (products, err)"
    by (cases "svc_List (service env) [] [] 1 10")
  define w1 where "w1 = emit env (Call (ListCall [] [] 1 10)) w"
  have t1: "trace w1 = trace w @ [Call (ListCall [] [] 1 10)]"
    by (simp add: w1_def emit_def)
  show ?thesis
  proof (cases err)
    case (Some e)
    have "trace (warmIndividualProducts env w)
        = trace w @ [Call (ListCall [] [] 1 10),
             Logged [(''cache_warming'', LStr ''products_list_error''), (''error'', LErr e)]]"
      using Some svc by (simp add: warmIndividualProducts_def Let_def world_ops)
    then have "new_events w (warmIndividualProducts env w)
        = [Call (ListCall [] [] 1 10),
             Logged [(''cache_warming'', LStr ''products_list_error''), (''error'', LErr e)]]"
      by (rule new_events_append)
    with Some svc show ?thesis by (simp add: expected_products_steps_def)
  next
    case None
    obtain warmed w2 where wp: "warm_products env products (0, w1) = (warmed, w2)"
      by (cases "warm_products env products (0, w1)")
    from warm_products_view [of env products 0 w1] wp
    obtain evs where evs: "trace w2 = trace w1 @ evs"
      "warming_view evs = concat (map (expected_product_steps env) products)"
      "warmed = of_nat (length (filter (product_written env) products))"
      by auto
    have "trace (warmIndividualProducts env w)
        = trace w @ (Call (ListCall [] [] 1 10) # evs @
            [Logged [(''cache_warming'', LStr ''products_completed''), (''warmed'', LInt warmed),
                     (''total'', LInt (of_nat (length products))),
                     (''duration_ms'', LInt (Milliseconds (now w2 - now w)))]])"
      using None svc wp [unfolded w1_def] evs(1) t1
      by (simp add: warmIndividualProducts_def Let_def logger_Log_def emit_def [of env "Logged x" for x])
    then have "new_events w (warmIndividualProducts env w)
        = Call (ListCall [] [] 1 10) # evs @
            [Logged [(''cache_warming'', LStr ''products_completed''), (''warmed'', LInt warmed),
                     (''total'', LInt (of_nat (length products))),
                     (''duration_ms'', LInt (Milliseconds (now w2 - now w)))]]"
      by (rule new_events_append)
    with None svc evs(2,3) show ?thesis
      by (simp add: expected_products_steps_def warming_view_append)
  qed
qed

lemma warmTags_view:
  "warming_view (new_events w (warmTags env w)) = expected_tags_steps env"
proof -
  obtain tags err where svc: "svc_Tags (service env) = (tags, err)"
    by (cases "svc_Tags (service env)")
  define w1 where "w1 = emit env (Call TagsCall) w"
  have t1: "trace w1 = trace w @ [Call TagsCall]"
    by (simp add: w1_def emit_def)
  show ?thesis
  proof (cases err)
    case (Some e)
    have "trace (warmTags env w)
        = trace w @ [Call TagsCall, Logged [(''cache_warming'', LStr ''tags_error''), (''error'', LErr e)]]"
      using Some svc by (simp add: warmTags_def Let_def world_ops)
    then have "new_events w (warmTags env w)
        = [Call TagsCall, Logged [(''cache_warming'', LStr ''tags_error''), (''error'', LErr e)]]"
      by (rule new_events_append)
    with Some svc show ?thesis by (simp add: expected_tags_steps_def)
  next
    case None
    obtain serr w2 where st: "SetTags env tags w1 = (serr, w2)"
      by (cases "SetTags env tags w1")
    from SetTags_view [of env tags w1] st
    obtain evs where evs: "trace w2 = trace w1 @ evs"
      "warming_view evs = (case Marshal_tags env tags of
            Inl e \<Rightarrow> []
          | Inr data \<Rightarrow> [Redis (SET tagsKey data ttl)])" by auto
    from SetTags_fst [of env tags w1] st
    have serr: "serr = (case Marshal_tags env tags of
        Inl e \<Rightarrow> Some e
      | Inr data \<Rightarrow> fault env (SET tagsKey data ttl))"
      by simp
    have "trace (warmTags env w) = trace w @ (Call TagsCall # evs @
            [Logged (case serr of
                Some e \<Rightarrow> [(''cache_warming'', LStr ''tags_cache_error''), (''error'', LErr e)]
              | None \<Rightarrow> [(''cache_warming'', LStr ''tags_completed''),
                           (''count'', LInt (of_nat (length tags))),
                           (''duration_ms'', LInt (Milliseconds (now w2 - now w)))])])"
      using None svc st [unfolded w1_def] evs(1) t1
      by (cases serr) (simp_all add: warmTags_def Let_def logger_Log_def emit_def [of env "Logged x" for x])
    then have "new_events w (warmTags env w) = Call TagsCall # evs @
            [Logged (case serr of
                Some e \<Rightarrow> [(''cache_warming'', LStr ''tags_cache_error''), (''error'', LErr e)]
              | None \<Rightarrow> [(''cache_warming'', LStr ''tags_completed''),
                           (''count'', LInt (of_nat (length tags))),
                           (''duration_ms'', LInt (Milliseconds (now w2 - now w)))])]"
      by (rule new_events_append)
    with None svc evs(2) serr show ?thesis
      by (simp add: expected_tags_steps_def warming_view_append split: sum.splits option.splits)
  qed
qed

subsection \<open>\<open>encoding/json\<close>: strings through the encoder and the decoder\<close>

lemma multi_byte_Some:
  "multi_byte s = Some n \<Longrightarrow> 2 \<le> n \<and> n \<le> length s \<and> 128 \<le> (of_char (hd s) :: nat)"
  by (auto simp add: multi_byte_def Let_def split: list.splits if_splits)

lemma multi_byte_prefix:
  "multi_byte s = Some n \<Longrightarrow> multi_byte (take n s @ t) = Some n"
  by (auto simp add: multi_byte_def Let_def split: list.splits if_splits)

lemma multi_byte_bytes:
  "multi_byte s = Some n \<Longrightarrow> \<forall>c \<in> set (take n s). 128 \<le> (of_char c :: nat)"
  by (auto simp add: multi_byte_def Let_def second_byte_ok_def continuation_def
        split: list.splits if_splits)

lemma take_drop_multi:
  assumes "multi_byte (c # cs) = Some n"
  shows "take n (c # cs) = c # take (n - 1) cs"
  using multi_byte_Some [OF assms] by (cases n) simp_all

lemma ValidString_coerce: "ValidString s \<Longrightarrow> coerce_utf8 s = s"
proof (induction s rule: coerce_utf8.induct)
  case 1
  show ?case by simp
next
  case (2 c cs)
  show ?case
  proof (cases "(of_char c :: nat) < 128")
    case True
    with 2 show ?thesis by simp
  next
    case False
    with "2.prems" obtain n where n: "multi_byte (c # cs) = Some n" "ValidString (drop (n - 1) cs)"
      by (auto split: option.splits)
    with False 2 have "coerce_utf8 (drop (n - 1) cs) = drop (n - 1) cs" by simp
    with False n take_drop_multi [OF n(1)] show ?thesis by simp
  qed
qed

lemma hex_digit_cases:
  "d < (16::nat) \<Longrightarrow> d = 0 \<or> d = 1 \<or> d = 2 \<or> d = 3 \<or> d = 4 \<or> d = 5 \<or> d = 6 \<or> d = 7 \<or> d = 8
     \<or> d = 9 \<or> d = 10 \<or> d = 11 \<or> d = 12 \<or> d = 13 \<or> d = 14 \<or> d = 15"
  by arith

lemma hex_digit_hex: "d < 16 \<Longrightarrow> is_hex (hex_digit d) \<and> hex_val (hex_digit d) = d"
  using hex_digit_cases [of d]
  by (auto simp add: hex_digit_def is_hex_def hex_val_def is_digit_def)

lemma getu4_escape:
  assumes "a < 16" "b < 16" "c < 16" "d < 16"
  shows "getu4 (CHR 0x5C # CHR ''u'' # hex_digit a # hex_digit b # hex_digit c # hex_digit d # t)
           = Some (((a * 16 + b) * 16 + c) * 16 + d)"
  using assms by (simp add: hex_digit_hex)

lemma EncodeRune_examples:
  "EncodeRune 0xFFFD = RuneError"
  "EncodeRune 0x2028 = [CHR 0xE2, CHR 0x80, CHR 0xA8]"
  "EncodeRune 0x2029 = [CHR 0xE2, CHR 0x80, CHR 0xA9]"
  by (simp_all add: EncodeRune_def RuneError_def char_of_def bit_Suc_0_iff)

lemma getu4_examples:
  "getu4 (CHR 0x5C # CHR ''u'' # CHR ''f'' # CHR ''f'' # CHR ''f'' # CHR ''d'' # t) = Some 0xFFFD"
  "getu4 (CHR 0x5C # CHR ''u'' # CHR ''2'' # CHR ''0'' # CHR ''2'' # CHR ''8'' # t) = Some 0x2028"
  "getu4 (CHR 0x5C # CHR ''u'' # CHR ''2'' # CHR ''0'' # CHR ''2'' # CHR ''9'' # t) = Some 0x2029"
  by (simp_all add: is_hex_def hex_val_def is_digit_def)

lemma unquote_u:
  assumes "getu4 (CHR 0x5C # CHR ''u'' # h1 # h2 # h3 # h4 # t) = Some rr" "\<not> IsSurrogate rr"
    "unquote t = Some r"
  shows "unquote (CHR 0x5C # CHR ''u'' # h1 # h2 # h3 # h4 # t) = Some (EncodeRune rr @ r)"
  using assms by (simp del: getu4.simps)

lemma unquote_u00:
  assumes "(of_char c :: nat) < 128" "unquote t = Some r"
  shows "unquote (CHR 0x5C # CHR ''u'' # CHR ''0'' # CHR ''0'' # hex_digit (of_char c div 16)
                  # hex_digit (of_char c mod 16) # t)
           = Some (c # r)"
proof -
  have "getu4 (CHR 0x5C # CHR ''u'' # hex_digit 0 # hex_digit 0 # hex_digit (of_char c div 16)
                  # hex_digit (of_char c mod 16) # t) = Some (((0 * 16 + 0) * 16 + of_char c div 16) * 16 + of_char c mod 16)"
    using assms by (intro getu4_escape) simp_all
  then have g: "getu4 (CHR 0x5C # CHR ''u'' # CHR ''0'' # CHR ''0'' # hex_digit (of_char c div 16)
                  # hex_digit (of_char c mod 16) # t) = Some (of_char c)"
    by (simp add: hex_digit_def)
  have "EncodeRune (of_char c) = [c]"
    using assms by (simp add: EncodeRune_def)
  moreover have "\<not> IsSurrogate (of_char c)"
    using assms by (simp add: IsSurrogate_def)
  ultimately show ?thesis
    using unquote_u [OF g _ assms(2)] by simp
qed

lemma unquote_escape_ascii:
  assumes "(of_char c :: nat) < 128" "unquote t = Some r"
  shows "unquote (escape_ascii c @ t) = Some (c # r)"
proof (cases "html_safe c")
  case True
  then show ?thesis using assms by (simp add: escape_ascii_def html_safe_def)
next
  case False
  show ?thesis
  proof (cases "c = CHR 0x5C \<or> c = CHR 0x22 \<or> c = CHR 0x0A \<or> c = CHR 0x0D \<or> c = CHR 0x09")
    case True
    with False assms show ?thesis by (auto simp add: escape_ascii_def unescape_def)
  next
    case other: False
    with False have "escape_ascii c = [CHR 0x5C, CHR ''u'', CHR ''0'', CHR ''0'',
            hex_digit (of_char c div 16), hex_digit (of_char c mod 16)]"
      by (simp add: escape_ascii_def)
    with unquote_u00 [OF assms] show ?thesis by simp
  qed
qed

lemma unquote_ufffd:
  "unquote t = Some r \<Longrightarrow>
   unquote (CHR 0x5C # CHR ''u'' # CHR ''f'' # CHR ''f'' # CHR ''f'' # CHR ''d'' # t) = Some (RuneError @ r)"
  using unquote_u [OF getu4_examples(1), of t r] by (simp add: IsSurrogate_def EncodeRune_examples)

lemma unquote_u2028:
  "unquote t = Some r \<Longrightarrow>
   unquote (CHR 0x5C # CHR ''u'' # CHR ''2'' # CHR ''0'' # CHR ''2'' # CHR ''8'' # t)
     = Some ([CHR 0xE2, CHR 0x80, CHR 0xA8] @ r)"
  using unquote_u [OF getu4_examples(2), of t r] by (simp add: IsSurrogate_def EncodeRune_examples)

lemma unquote_u2029:
  "unquote t = Some r \<Longrightarrow>
   unquote (CHR 0x5C # CHR ''u'' # CHR ''2'' # CHR ''0'' # CHR ''2'' # CHR ''9'' # t)
     = Some ([CHR 0xE2, CHR 0x80, CHR 0xA9] @ r)"
  using unquote_u [OF getu4_examples(3), of t r] by (simp add: IsSurrogate_def EncodeRune_examples)

lemma unquote_multi:
  assumes "multi_byte (c # cs) = Some n" "unquote t = Some r"
  shows "unquote (take n (c # cs) @ t) = Some (take n (c # cs) @ r)"
proof -
  have c: "128 \<le> (of_char c :: nat)" using multi_byte_Some [OF assms(1)] by simp
  have n: "2 \<le> n" "n \<le> length (c # cs)" using multi_byte_Some [OF assms(1)] by simp_all
  have tk: "take n (c # cs) = c # take (n - 1) cs" by (rule take_drop_multi [OF assms(1)])
  have mb: "multi_byte (c # (take (n - 1) cs @ t)) = Some n"
    using multi_byte_prefix [OF assms(1), of t] by (simp add: tk)
  have len: "length (take (n - 1) cs) = n - 1" using n by simp
  have c2: "c \<noteq> CHR 0x5C" "c \<noteq> CHR 0x22" using c by auto
  have t1: "take n (c # (take (n - 1) cs @ t)) = c # take (n - 1) cs"
    using n len by (cases n) simp_all
  have t2: "drop (n - 1) (take (n - 1) cs @ t) = t"
    using len by simp
  have "unquote (c # (take (n - 1) cs @ t))
          = map_option ((@) (take n (c # (take (n - 1) cs @ t))))
              (unquote (drop (n - 1) (take (n - 1) cs @ t)))"
    using c c2 mb by (simp del: multi_byte_def)
  then show ?thesis
    unfolding t1 t2 using assms(2) by (simp add: tk)
qed

lemma unquote_escape_string:
  "unquote t = Some r \<Longrightarrow> unquote (escape_string s @ t) = Some (coerce_utf8 s @ r)"
proof (induction s rule: escape_string.induct)
  case 1
  then show ?case by simp
next
  case (2 c cs)
  show ?case
  proof (cases "(of_char c :: nat) < 128")
    case True
    with 2 have IH: "unquote (escape_string cs @ t) = Some (coerce_utf8 cs @ r)"
      by simp
    have "unquote (escape_string (c # cs) @ t) = unquote (escape_ascii c @ (escape_string cs @ t))"
      using True by simp
    also have "\<dots> = Some (c # coerce_utf8 cs @ r)"
      using True IH by (rule unquote_escape_ascii)
    finally show ?thesis using True by simp
  next
    case False
    show ?thesis
    proof (cases "multi_byte (c # cs)")
      case None
      with False 2 have IH: "unquote (escape_string cs @ t) = Some (coerce_utf8 cs @ r)"
        by simp
      have "unquote (escape_string (c # cs) @ t)
              = unquote (CHR 0x5C # CHR ''u'' # CHR ''f'' # CHR ''f'' # CHR ''f'' # CHR ''d'' # (escape_string cs @ t))"
        using False None by simp
      also have "\<dots> = Some (RuneError @ coerce_utf8 cs @ r)"
        using IH by (rule unquote_ufffd)
      finally show ?thesis using False None by simp
    next
      case (Some n)
      define q where "q = drop (n - 1) cs"
      have IH: "unquote (escape_string q @ t) = Some (coerce_utf8 q @ r)"
        using False Some 2 by (simp add: q_def, blast)
      have co: "coerce_utf8 (c # cs) = take n (c # cs) @ coerce_utf8 q"
        using False Some by (simp add: q_def)
      consider (a) "take n (c # cs) = [CHR 0xE2, CHR 0x80, CHR 0xA8]"
        | (b) "take n (c # cs) = [CHR 0xE2, CHR 0x80, CHR 0xA9]"
        | (c) "take n (c # cs) \<noteq> [CHR 0xE2, CHR 0x80, CHR 0xA8]" "take n (c # cs) \<noteq> [CHR 0xE2, CHR 0x80, CHR 0xA9]"
        by blast
      then show ?thesis
      proof cases
        case a
        have "unquote (escape_string (c # cs) @ t)
              = unquote (CHR 0x5C # CHR ''u'' # CHR ''2'' # CHR ''0'' # CHR ''2'' # CHR ''8'' # (escape_string q @ t))"
          using False Some a by (simp add: q_def)
        also have "\<dots> = Some ([CHR 0xE2, CHR 0x80, CHR 0xA8] @ coerce_utf8 q @ r)"
          using IH by (rule unquote_u2028)
        finally show ?thesis using co a by simp
      next
        case b
        have "unquote (escape_string (c # cs) @ t)
              = unquote (CHR 0x5C # CHR ''u'' # CHR ''2'' # CHR ''0'' # CHR ''2'' # CHR ''9'' # (escape_string q @ t))"
          using False Some b by (simp add: q_def)
        also have "\<dots> = Some ([CHR 0xE2, CHR 0x80, CHR 0xA9] @ coerce_utf8 q @ r)"
          using IH by (rule unquote_u2029)
        finally show ?thesis using co b by simp
      next
        case c
        have "unquote (escape_string (c # cs) @ t) = unquote (take n (c # cs) @ (escape_string q @ t))"
          using False Some c by (simp add: q_def)
        also have "\<dots> = Some (take n (c # cs) @ coerce_utf8 q @ r)"
          using Some IH by (rule unquote_multi)
        finally show ?thesis using co by simp
      qed
    qed
  qed
qed

lemma unquote_escape: "unquote (escape_string s) = Some (coerce_utf8 s)"
  using unquote_escape_string [of "[]" "[]" s] by simp

subsection \<open>The scanner on what the encoder writes\<close>

lemma run_append:
  "run s (a @ b) = (case run s a of None \<Rightarrow> None | Some s' \<Rightarrow> run s' b)"
  by (induction a arbitrary: s) (simp_all split: option.splits)

lemma run_append_Some: "run s a = Some s' \<Longrightarrow> run s (a @ b) = run s' b"
  by (simp add: run_append)

lemma run_high_bytes:
  "\<forall>c \<in> set xs. 128 \<le> (of_char c :: nat)
   \<Longrightarrow> run (stateInString lit, fs) xs = Some (stateInString (lit @ xs), fs)"
proof (induction xs arbitrary: lit)
  case Nil
  show ?case by simp
next
  case (Cons x xs)
  then have x: "128 \<le> (of_char x :: nat)" by simp
  then have "x \<noteq> CHR 0x22" "x \<noteq> CHR 0x5C" "\<not> (of_char x :: nat) < 32" by auto
  then have "step (stateInString lit, fs) x = Some (stateInString (lit @ [x]), fs)" by simp
  with Cons.IH [of "lit @ [x]"] Cons.prems show ?case by simp
qed

lemma run_u4:
  "is_hex h1 \<Longrightarrow> is_hex h2 \<Longrightarrow> is_hex h3 \<Longrightarrow> is_hex h4
   \<Longrightarrow> run (stateInString lit, fs) [CHR 0x5C, CHR ''u'', h1, h2, h3, h4]
         = Some (stateInString (lit @ [CHR 0x5C, CHR ''u'', h1, h2, h3, h4]), fs)"
  by simp

lemma run_escape_ascii:
  assumes "(of_char c :: nat) < 128"
  shows "run (stateInString lit, fs) (escape_ascii c) = Some (stateInString (lit @ escape_ascii c), fs)"
proof (cases "html_safe c")
  case True
  then show ?thesis by (simp add: escape_ascii_def html_safe_def)
next
  case False
  show ?thesis
  proof (cases "c = CHR 0x5C \<or> c = CHR 0x22 \<or> c = CHR 0x0A \<or> c = CHR 0x0D \<or> c = CHR 0x09")
    case True
    with False show ?thesis by (auto simp add: escape_ascii_def)
  next
    case other: False
    with False have e: "escape_ascii c = [CHR 0x5C, CHR ''u'', CHR ''0'', CHR ''0'',
            hex_digit (of_char c div 16), hex_digit (of_char c mod 16)]"
      by (simp add: escape_ascii_def)
    have "is_hex (CHR ''0'')" by (simp add: is_hex_def is_digit_def)
    moreover have "is_hex (hex_digit (of_char c div 16))" "is_hex (hex_digit (of_char c mod 16))"
      using assms by (simp_all add: hex_digit_hex)
    ultimately show ?thesis unfolding e by (intro run_u4)
  qed
qed

lemma is_hex_examples:
  "is_hex CHR ''f''" "is_hex CHR ''d''" "is_hex CHR ''2''" "is_hex CHR ''0''" "is_hex CHR ''8''" "is_hex CHR ''9''"
  by (simp_all add: is_hex_def is_digit_def)

lemma run_escape_string:
  "run (stateInString lit, fs) (escape_string s) = Some (stateInString (lit @ escape_string s), fs)"
proof (induction s arbitrary: lit rule: escape_string.induct)
  case 1
  show ?case by simp
next
  case (2 c cs)
  show ?case
  proof (cases "(of_char c :: nat) < 128")
    case True
    with 2 have IH: "run (stateInString (lit @ escape_ascii c), fs) (escape_string cs)
        = Some (stateInString ((lit @ escape_ascii c) @ escape_string cs), fs)"
      by simp
    with True run_escape_ascii [OF True, of lit fs] show ?thesis
      by (simp add: run_append)
  next
    case False
    show ?thesis
    proof (cases "multi_byte (c # cs)")
      case None
      define X where "X = [CHR 0x5C, CHR ''u'', CHR ''f'', CHR ''f'', CHR ''f'', CHR ''d'']"
      have e: "escape_string (c # cs) = X @ escape_string cs"
        using False None by (simp add: X_def)
      have "run (stateInString lit, fs) X = Some (stateInString (lit @ X), fs)"
        unfolding X_def by (intro run_u4 is_hex_examples)
      moreover have "run (stateInString (lit @ X), fs) (escape_string cs)
        = Some (stateInString ((lit @ X) @ escape_string cs), fs)"
        using False None 2 by simp
      ultimately show ?thesis unfolding e by (simp add: run_append)
    next
      case (Some n)
      define q where "q = drop (n - 1) cs"
      have IH: "run (stateInString lit', fs) (escape_string q)
                  = Some (stateInString (lit' @ escape_string q), fs)" for lit'
        using False Some 2 by (simp add: q_def, blast)
      have "\<exists>X. escape_string (c # cs) = X @ escape_string q
               \<and> run (stateInString lit, fs) X = Some (stateInString (lit @ X), fs)"
      proof -
        consider (a) "take n (c # cs) = [CHR 0xE2, CHR 0x80, CHR 0xA8]"
          | (b) "take n (c # cs) \<noteq> [CHR 0xE2, CHR 0x80, CHR 0xA8]" "take n (c # cs) = [CHR 0xE2, CHR 0x80, CHR 0xA9]"
          | (c) "take n (c # cs) \<noteq> [CHR 0xE2, CHR 0x80, CHR 0xA8]" "take n (c # cs) \<noteq> [CHR 0xE2, CHR 0x80, CHR 0xA9]"
          by blast
        then show ?thesis
        proof cases
          case a
          have "escape_string (c # cs) = [CHR 0x5C, CHR ''u'', CHR ''2'', CHR ''0'', CHR ''2'', CHR ''8''] @ escape_string q"
            using False Some a by (simp add: q_def)
          moreover have "run (stateInString lit, fs) [CHR 0x5C, CHR ''u'', CHR ''2'', CHR ''0'', CHR ''2'', CHR ''8'']
             = Some (stateInString (lit @ [CHR 0x5C, CHR ''u'', CHR ''2'', CHR ''0'', CHR ''2'', CHR ''8'']), fs)"
            by (intro run_u4 is_hex_examples)
          ultimately show ?thesis by blast
        next
          case b
          have "escape_string (c # cs) = [CHR 0x5C, CHR ''u'', CHR ''2'', CHR ''0'', CHR ''2'', CHR ''9''] @ escape_string q"
            using False Some b by (simp add: q_def)
          moreover have "run (stateInString lit, fs) [CHR 0x5C, CHR ''u'', CHR ''2'', CHR ''0'', CHR ''2'', CHR ''9'']
             = Some (stateInString (lit @ [CHR 0x5C, CHR ''u'', CHR ''2'', CHR ''0'', CHR ''2'', CHR ''9'']), fs)"
            by (intro run_u4 is_hex_examples)
          ultimately show ?thesis by blast
        next
          case c
          have "escape_string (c # cs) = take n (c # cs) @ escape_string q"
            using False Some c by (simp add: q_def)
          moreover have "run (stateInString lit, fs) (take n (c # cs))
             = Some (stateInString (lit @ take n (c # cs)), fs)"
            using multi_byte_bytes [OF Some] by (intro run_high_bytes)
          ultimately show ?thesis by blast
        qed
      qed
      then obtain X where X: "escape_string (c # cs) = X @ escape_string q"
        "run (stateInString lit, fs) X = Some (stateInString (lit @ X), fs)" by blast
      show ?thesis unfolding X(1) using X(2) IH [of "lit @ X"] by (simp add: run_append)
    qed
  qed
qed

lemma run_json_string:
  assumes "st = stateBeginValue \<or> st = stateBeginValueOrEmpty \<or> st = stateBeginString
           \<or> st = stateBeginStringOrEmpty"
  shows "run (st, fs) (json_string s) = Some (stateEndValue (JString (coerce_utf8 s)), fs)"
proof -
  have "step (st, fs) (CHR 0x22) = Some (stateInString [], fs)"
    using assms by (auto simp add: isSpace_def begin_value_def)
  moreover have "run (stateInString [], fs) (escape_string s) = Some (stateInString (escape_string s), fs)"
    using run_escape_string [of "[]" fs s] by simp
  moreover have "step (stateInString (escape_string s), fs) (CHR 0x22)
                   = Some (stateEndValue (JString (coerce_utf8 s)), fs)"
    by (simp add: unquote_escape)
  ultimately show ?thesis
    by (simp add: json_string_def run_append)
qed

lemma run_seq: "run s a = Some s' \<Longrightarrow> run s' b = r \<Longrightarrow> run s (a @ b) = r"
  by (simp add: run_append)

lemma run_Cons: "step s c = Some s' \<Longrightarrow> run s' b = r \<Longrightarrow> run s (c # b) = r"
  by simp

lemma run_elements_tail:
  assumes "\<And>x es. x \<in> set xs \<Longrightarrow>
             run (stateBeginValue, parseArrayValue es # fs) (render x)
               = Some (stateEndValue (val x), parseArrayValue es # fs)"
  shows "run (stateEndValue v, parseArrayValue es # fs)
           (concat (map (\<lambda>s. '','' @ s) (map render xs)) @ '']'')
         = Some (stateEndValue (JArray (es @ v # map val xs)), fs)"
  using assms
proof (induction xs arbitrary: es v)
  case Nil
  show ?case by (simp add: isSpace_def)
next
  case (Cons x xs)
  have a: "step (stateEndValue v, parseArrayValue es # fs) (CHR '','')
          = Some (stateBeginValue, parseArrayValue (es @ [v]) # fs)"
    by (simp add: isSpace_def)
  have b: "run (stateBeginValue, parseArrayValue (es @ [v]) # fs) (render x)
          = Some (stateEndValue (val x), parseArrayValue (es @ [v]) # fs)"
    using Cons.prems by simp
  have c: "run (stateEndValue (val x), parseArrayValue (es @ [v]) # fs)
           (concat (map (\<lambda>s. '','' @ s) (map render xs)) @ '']'')
         = Some (stateEndValue (JArray ((es @ [v]) @ val x # map val xs)), fs)"
    using Cons.prems by (intro Cons.IH) simp
  have "run (stateEndValue v, parseArrayValue es # fs)
       (CHR '','' # (render x @ (concat (map (\<lambda>s. '','' @ s) (map render xs)) @ '']'')))
         = Some (stateEndValue (JArray ((es @ [v]) @ val x # map val xs)), fs)"
    by (rule run_Cons [OF a], rule run_seq [OF b], rule c)
  then show ?case by simp
qed

lemma run_array:
  assumes elem: "\<And>x es st. x \<in> set xs \<Longrightarrow> st = stateBeginValue \<or> st = stateBeginValueOrEmpty \<Longrightarrow>
             run (st, parseArrayValue es # fs) (render x)
               = Some (stateEndValue (val x), parseArrayValue es # fs)"
    and depth: "length fs < maxNestingDepth"
    and st: "st = stateBeginValue \<or> st = stateBeginValueOrEmpty"
  shows "run (st, fs) (''['' @ Join (map render xs) '','' @ '']'')
           = Some (stateEndValue (JArray (map val xs)), fs)"
proof -
  have a: "step (st, fs) (CHR ''['') = Some (stateBeginValueOrEmpty, parseArrayValue [] # fs)"
    using st depth by (auto simp add: isSpace_def begin_value_def)
  show ?thesis
  proof (cases xs)
    case Nil
    with a show ?thesis by (simp add: isSpace_def)
  next
    case (Cons x xs')
    have b: "run (stateBeginValueOrEmpty, parseArrayValue [] # fs) (render x)
            = Some (stateEndValue (val x), parseArrayValue [] # fs)"
      using elem [of x stateBeginValueOrEmpty "[]"] Cons by simp
    have c: "run (stateEndValue (val x), parseArrayValue [] # fs)
           (concat (map (\<lambda>s. '','' @ s) (map render xs')) @ '']'')
         = Some (stateEndValue (JArray ([] @ val x # map val xs')), fs)"
      using elem Cons by (intro run_elements_tail) simp
    have "run (st, fs)
        (CHR ''['' # (render x @ (concat (map (\<lambda>s. '','' @ s) (map render xs')) @ '']'')))
           = Some (stateEndValue (JArray ([] @ val x # map val xs')), fs)"
      by (rule run_Cons [OF a], rule run_seq [OF b], rule c)
    moreover have "(@) '','' = (#) CHR '',''" by (rule ext) simp
    ultimately show ?thesis using Cons by simp
  qed
qed

lemma run_strings_text:
  assumes "length fs < maxNestingDepth" "st = stateBeginValue \<or> st = stateBeginValueOrEmpty"
  shows "run (st, fs) (strings_text tags)
           = Some (stateEndValue (JArray (map (\<lambda>s. JString (coerce_utf8 s)) tags)), fs)"
  unfolding strings_text_def using assms
  by (intro run_array) (auto intro: run_json_string)

lemma run_null:
  assumes "st = stateBeginValue \<or> st = stateBeginValueOrEmpty"
  shows "run (st, fs) ''null'' = Some (stateEndValue JNull, fs)"
  using assms by (auto simp add: isSpace_def begin_value_def is_digit_def)

text \<open>The value the scanner reads from the text of a list of strings.\<close>

lemma run_strings_text_as:
  assumes "length fs < maxNestingDepth" "st = stateBeginValue \<or> st = stateBeginValueOrEmpty"
  shows "run (st, fs) (strings_text_as nil tags)
           = Some (stateEndValue (if nil \<and> tags = [] then JNull
                                  else JArray (map (\<lambda>s. JString (coerce_utf8 s)) tags)), fs)"
  using assms run_null [of st fs] run_strings_text [of fs st tags]
  by (simp add: strings_text_as_def del: run.simps)

lemma run_member_name:
  assumes "st = stateBeginString \<or> st = stateBeginStringOrEmpty"
    and "name = ''ID'' \<or> name = ''Name'' \<or> name = ''Tags''"
  shows "run (st, parseObjectKey ms # fs) (member_name name)
           = Some (stateBeginValue, parseObjectValue ms name # fs)"
  using assms by (auto simp add: member_name_def isSpace_def)

text \<open>The value the scanner reads from the text of a \<open>Sock\<close>.\<close>

lemma run_Sock_text_as:
  assumes depth: "Suc (length fs) < maxNestingDepth"
    and st: "st = stateBeginValue \<or> st = stateBeginValueOrEmpty"
  shows "run (st, fs) (Sock_text_as nil p)
           = Some (stateEndValue
                (JObject [(''ID'', JString (coerce_utf8 (ID p))),
                          (''Name'', JString (coerce_utf8 (Name p))),
                          (''Tags'', if nil \<and> Tags p = [] then JNull
                                     else JArray (map (\<lambda>s. JString (coerce_utf8 s)) (Tags p)))]), fs)"
proof -
  define tg where "tg = (if nil \<and> Tags p = [] then JNull
                         else JArray (map (\<lambda>s. JString (coerce_utf8 s)) (Tags p)))"
  have 1: "step (st, fs) (CHR ''{'') = Some (stateBeginStringOrEmpty, parseObjectKey [] # fs)"
    using st depth by (auto simp add: isSpace_def begin_value_def)
  have 2: "run (stateBeginStringOrEmpty, parseObjectKey [] # fs) (member_name ''ID'')
             = Some (stateBeginValue, parseObjectValue [] ''ID'' # fs)"
    by (intro run_member_name) simp_all
  have 3: "run (stateBeginValue, parseObjectValue [] ''ID'' # fs) (json_string (ID p))
             = Some (stateEndValue (JString (coerce_utf8 (ID p))), parseObjectValue [] ''ID'' # fs)"
    by (intro run_json_string) simp
  have 5: "run (stateBeginString, parseObjectKey ms # fs) (member_name ''Name'')
             = Some (stateBeginValue, parseObjectValue ms ''Name'' # fs)" for ms
    by (intro run_member_name) simp_all
  have 6: "run (stateBeginValue, parseObjectValue ms ''Name'' # fs) (json_string (Name p))
             = Some (stateEndValue (JString (coerce_utf8 (Name p))), parseObjectValue ms ''Name'' # fs)" for ms
    by (intro run_json_string) simp
  have 7: "step (stateEndValue v, parseObjectValue ms ''Name'' # fs) (CHR '','')
             = Some (stateBeginString, parseObjectKey (ms @ [(''Name'', v)]) # fs)" for ms v
    by (simp add: isSpace_def)
  have 8: "run (stateBeginString, parseObjectKey ms # fs) (member_name ''Tags'')
             = Some (stateBeginValue, parseObjectValue ms ''Tags'' # fs)" for ms
    by (intro run_member_name) simp_all
  have 9: "run (stateBeginValue, parseObjectValue ms ''Tags'' # fs) (strings_text_as nil (Tags p))
             = Some (stateEndValue tg, parseObjectValue ms ''Tags'' # fs)" for ms
    unfolding tg_def using depth by (intro run_strings_text_as) simp_all
  have 10: "step (stateEndValue v, parseObjectValue ms ''Tags'' # fs) (CHR ''}'')
             = Some (stateEndValue (JObject (ms @ [(''Tags'', v)])), fs)" for ms v
    by (simp add: isSpace_def)
  have "run (st, fs)
          (CHR ''{'' # (member_name ''ID'' @ (json_string (ID p) @ (CHR '','' #
             (member_name ''Name'' @ (json_string (Name p) @ (CHR '','' #
               (member_name ''Tags'' @ (strings_text_as nil (Tags p) @ (CHR ''}'' # []))))))))))
           = Some (stateEndValue
                (JObject (([] @ [(''ID'', JString (coerce_utf8 (ID p)))])
                          @ [(''Name'', JString (coerce_utf8 (Name p)))]
                          @ [(''Tags'', tg)])), fs)"
    apply (rule run_Cons [OF 1])
    apply (rule run_seq [OF 2])
    apply (rule run_seq [OF 3])
    apply (rule run_Cons)
     apply (simp add: isSpace_def)
    apply (rule run_seq [OF 5])
    apply (rule run_seq [OF 6])
    apply (rule run_Cons [OF 7])
    apply (rule run_seq [OF 8])
    apply (rule run_seq [OF 9])
    apply (rule run_Cons [OF 10])
    apply simp
    done
  then show ?thesis by (simp add: Sock_text_as_def tg_def)
qed

lemma run_Socks_text_as:
  assumes "Suc (Suc (length fs)) < maxNestingDepth" "st = stateBeginValue \<or> st = stateBeginValueOrEmpty"
  shows "run (st, fs) (Socks_text_as nil nils ps)
           = Some (stateEndValue
               (if nil \<and> ps = [] then JNull
                else JArray (map (\<lambda>(n, p).
                  JObject [(''ID'', JString (coerce_utf8 (ID p))),
                           (''Name'', JString (coerce_utf8 (Name p))),
                           (''Tags'', if n \<and> Tags p = [] then JNull
                                      else JArray (map (\<lambda>s. JString (coerce_utf8 s)) (Tags p)))])
                  (zip nils ps))), fs)"
proof (cases "nil \<and> ps = []")
  case True
  with assms run_null [of st fs] show ?thesis by (simp add: Socks_text_as_def del: run.simps)
next
  case False
  have "run (st, fs) (''['' @ Join (map (\<lambda>(n, p). Sock_text_as n p) (zip nils ps)) '','' @ '']'')
      = Some (stateEndValue (JArray (map (\<lambda>(n, p).
                  JObject [(''ID'', JString (coerce_utf8 (ID p))),
                           (''Name'', JString (coerce_utf8 (Name p))),
                           (''Tags'', if n \<and> Tags p = [] then JNull
                                      else JArray (map (\<lambda>s. JString (coerce_utf8 s)) (Tags p)))])
                  (zip nils ps))), fs)"
    using assms by (intro run_array) (auto intro: run_Sock_text_as)
  with False show ?thesis by (auto simp add: Socks_text_as_def simp del: run.simps)
qed

subsection \<open>Storing what was read\<close>

lemma elements_into_strings:
  "elements_into backing (map JString xs) = Some xs"
  by (induction xs arbitrary: backing) simp_all

lemma into_strings_fresh:
  "\<exists>backing. into_strings []
       (if nil \<and> tags = [] then JNull else JArray (map (\<lambda>s. JString (f s)) tags))
     = Some (map f tags, backing)"
  using elements_into_strings [of "[]" "map f tags"]
  by (simp add: into_strings_def comp_def)

lemma field_of_names:
  "field_of ''ID'' = Some field_ID" "field_of ''Name'' = Some field_Name"
  "field_of ''Tags'' = Some field_Tags"
  by (simp_all add: field_of_def field_names_def)

lemma into_Sock_fresh:
  "into_Sock Sock_zero
     (JObject [(''ID'', JString i), (''Name'', JString n),
               (''Tags'', if nil \<and> tags = [] then JNull else JArray (map (\<lambda>s. JString (f s)) tags))])
   = Some \<lparr>ID = i, Name = n, Tags = map f tags\<rparr>"
proof -
  from into_strings_fresh [of nil tags f] obtain backing where
    "into_strings [] (if nil \<and> tags = [] then JNull else JArray (map (\<lambda>s. JString (f s)) tags))
       = Some (map f tags, backing)" by blast
  then show ?thesis
    by (simp add: into_Sock_def field_of_names into_string_def Sock_zero_def)
qed

lemma into_Socks_fresh:
  "length nils = length ps \<Longrightarrow>
   into_Socks (map (\<lambda>(n, p).
      JObject [(''ID'', JString (coerce_utf8 (ID p))),
               (''Name'', JString (coerce_utf8 (Name p))),
               (''Tags'', if n \<and> Tags p = [] then JNull
                          else JArray (map (\<lambda>s. JString (coerce_utf8 s)) (Tags p)))]) (zip nils ps))
   = Some (map coerce_Sock ps)"
  by (induction nils ps rule: list_induct2) (simp_all add: into_Sock_fresh coerce_Sock_def)

subsection \<open>Reading back what was written\<close>

lemma depth_ok: "0 < maxNestingDepth" "Suc 0 < maxNestingDepth" "Suc (Suc 0) < maxNestingDepth"
  by (simp_all add: maxNestingDepth_def)

lemma Unmarshal_strings_text:
  "json_Unmarshal_tags (strings_text_as nil tags) = Inr (map coerce_utf8 tags)"
proof -
  from into_strings_fresh [of nil tags coerce_utf8] obtain backing where
    "into_strings [] (if nil \<and> tags = [] then JNull
                      else JArray (map (\<lambda>s. JString (coerce_utf8 s)) tags))
       = Some (map coerce_utf8 tags, backing)" by blast
  with run_strings_text_as [of "[]" stateBeginValue nil tags] show ?thesis
    by (simp add: json_Unmarshal_tags_def checkValid_def depth_ok)
qed

lemma Unmarshal_Sock_text:
  "json_Unmarshal_product (Sock_text_as nil p) = Inr (coerce_Sock p)"
  using run_Sock_text_as [of "[]" stateBeginValue nil p]
  by (simp add: json_Unmarshal_product_def checkValid_def depth_ok into_Sock_fresh coerce_Sock_def)

lemma Unmarshal_Socks_text:
  assumes "length nils = length ps"
  shows "json_Unmarshal_products (Socks_text_as nil nils ps) = Inr (map coerce_Sock ps)"
proof (cases "nil \<and> ps = []")
  case True
  with run_Socks_text_as [of "[]" stateBeginValue nil nils ps] show ?thesis
    by (simp add: json_Unmarshal_products_def checkValid_def depth_ok)
next
  case False
  with run_Socks_text_as [of "[]" stateBeginValue nil nils ps] into_Socks_fresh [OF assms]
  show ?thesis
    by (simp add: json_Unmarshal_products_def checkValid_def depth_ok)
qed

text \<open>The encoder on slices that are not nil is one of the texts.\<close>

lemma Socks_text_not_nil: "Socks_text ps = Socks_text_as False (replicate (length ps) False) ps"
proof -
  have "map (\<lambda>(n, p). Sock_text_as n p) (zip (replicate (length ps) False) ps) = map Sock_text ps"
    by (induction ps) (simp_all add: Sock_text_def)
  then show ?thesis by (simp add: Socks_text_def Socks_text_as_def)
qed

lemma Unmarshal_Marshal_tags:
  "json_Marshal_tags tags = Inr data \<Longrightarrow> json_Unmarshal_tags data = Inr (map coerce_utf8 tags)"
  using Unmarshal_strings_text [of False tags]
  by (auto simp add: json_Marshal_tags_def strings_text_as_def)

lemma Unmarshal_Marshal_product:
  "json_Marshal_product p = Inr data \<Longrightarrow> json_Unmarshal_product data = Inr (coerce_Sock p)"
  using Unmarshal_Sock_text [of False p]
  by (auto simp add: json_Marshal_product_def Sock_text_def)

lemma Unmarshal_Marshal_products:
  "json_Marshal_products ps = Inr data \<Longrightarrow> json_Unmarshal_products data = Inr (map coerce_Sock ps)"
  using Unmarshal_Socks_text [of "replicate (length ps) False" ps False]
  by (auto simp add: json_Marshal_products_def Socks_text_not_nil)

lemma ValidSock_coerce: "ValidSock p \<Longrightarrow> coerce_Sock p = p"
  by (simp add: ValidSock_def coerce_Sock_def ValidString_coerce list_all_iff map_idI)

lemma Valid_tags_coerce: "list_all ValidString tags \<Longrightarrow> map coerce_utf8 tags = tags"
  by (simp add: ValidString_coerce list_all_iff map_idI)

lemma Valid_products_coerce: "list_all ValidSock ps \<Longrightarrow> map coerce_Sock ps = ps"
  by (simp add: ValidSock_coerce list_all_iff map_idI)

subsection \<open>Writing and reading back\<close>

lemmas json_defs = json_Marshal_tags_def strings_text_def json_string_def escape_ascii_def html_safe_def hex_digit_def
  multi_byte_def second_byte_ok_def continuation_def

lemma SetProducts_store:
  "store (snd (SetProducts env tags order pageNum pageSize products w)) =
     (case Marshal_products env products of
        Inl e \<Rightarrow> store w
      | Inr data \<Rightarrow>
          (case fault env (SET (productListKey tags order pageNum pageSize) data ttl) of
             Some e \<Rightarrow> store w
           | None \<Rightarrow> (store w)(productListKey tags order pageNum pageSize \<mapsto> data)))"
  by (simp add: SetProducts_def client_Set_def world_ops Let_def split: sum.splits option.splits)

lemma SetProduct_store:
  "store (snd (SetProduct env ident product w)) =
     (case Marshal_product env product of
        Inl e \<Rightarrow> store w
      | Inr data \<Rightarrow>
          (case fault env (SET (productKey ident) data ttl) of
             Some e \<Rightarrow> store w
           | None \<Rightarrow> (store w)(productKey ident \<mapsto> data)))"
  by (simp add: SetProduct_def client_Set_def world_ops Let_def split: sum.splits option.splits)

lemma SetCount_store:
  "store (snd (SetCount env tags count w)) =
     (case fault env (SET (countKey tags) (Itoa count) ttl) of
        Some e \<Rightarrow> store w
      | None \<Rightarrow> (store w)(countKey tags \<mapsto> Itoa count))"
  by (simp add: SetCount_def client_Set_def world_ops Let_def split: sum.splits option.splits)

lemma SetTags_store:
  "store (snd (SetTags env tags w)) =
     (case Marshal_tags env tags of
        Inl e \<Rightarrow> store w
      | Inr data \<Rightarrow>
          (case fault env (SET tagsKey data ttl) of
             Some e \<Rightarrow> store w
           | None \<Rightarrow> (store w)(tagsKey \<mapsto> data)))"
  by (simp add: SetTags_def client_Set_def world_ops Let_def split: sum.splits option.splits)

text \<open>Two texts with the same encoding cannot both be given back, whatever the decoder.\<close>

lemma no_decoder_restores_both:
  "\<not> (decode (json_Marshal_tags [[CHR 0xFF]]) = Inr [[CHR 0xFF]]
      \<and> decode (json_Marshal_tags [[CHR 0xFE]]) = Inr [[CHR 0xFE]])"
  by (simp add: json_defs)

text \<open>The test settings with \<open>encoding/json\<close> are surroundings of that kind.\<close>

lemma json_env_codec: "json_codec json_env"
proof -
  have "\<exists>nil nils. length nils = length ps \<and> Socks_text ps = Socks_text_as nil nils ps" for ps
    using Socks_text_not_nil [of ps] by (intro exI [of _ False] exI [of _ "replicate (length ps) False"]) simp
  moreover have "\<exists>nil. Sock_text p = Sock_text_as nil p" for p
    by (intro exI [of _ False]) (simp add: Sock_text_def)
  moreover have "\<exists>nil. strings_text tags = strings_text_as nil tags" for tags
    by (intro exI [of _ False]) (simp add: strings_text_as_def)
  ultimately show ?thesis
    by (simp add: json_codec_def json_env_def stub_env_def json_Marshal_products_def
          json_Marshal_product_def json_Marshal_tags_def)
qed

lemma json_env_nil_codec: "json_codec json_env_nil"
proof -
  have "\<exists>nil nils. length nils = length ps
          \<and> Socks_text_as True (replicate (length ps) True) ps = Socks_text_as nil nils ps" for ps
    by (intro exI [of _ True] exI [of _ "replicate (length ps) True"]) simp
  then show ?thesis
    by (auto simp add: json_codec_def json_env_nil_def json_env_def stub_env_def)
qed

section \<open>Properties of the cache layer\<close>

subsection \<open>Key derivation\<close>

text \<open>
  Claim C5. For every query descriptor the List key is the text
  \<open>catalogue:products:\<close>, the tags joined by commas (or \<open>all\<close> when that is empty),
  \<open>:order:\<close>, the order, \<open>:page:\<close>, the page number in decimal, \<open>:size:\<close>, the page
  size in decimal. The key is a function of the four fields and of nothing else, so
  descriptors with the same fields, tag order included, have the same key on every
  derivation.
\<close>

theorem productListKey_format:
  "productListKey tags order pageNum pageSize =
     ''catalogue:products:'' @ tags_or_all tags @ '':order:'' @ order
       @ '':page:'' @ Itoa pageNum @ '':size:'' @ Itoa pageSize
   \<and> (tags' = tags \<and> order' = order \<and> pageNum' = pageNum \<and> pageSize' = pageSize
        \<longrightarrow> productListKey tags' order' pageNum' pageSize'
              = productListKey tags order pageNum pageSize)"
  by (simp add: productListKey_eq)

theorem productListKey_format_witness:
  "productListKey [''brown'', ''blue''] ''price'' 1 6
     = ''catalogue:products:brown,blue:order:price:page:1:size:6''
   \<and> productListKey [] [] 2 12 = ''catalogue:products:all:order::page:2:size:12''"
  using productListKey_format
          [where tags = "[''brown'', ''blue'']" and order = "''price''" and pageNum = 1
             and pageSize = 6 and tags' = "[''brown'', ''blue'']" and order' = "''price''"
             and pageNum' = 1 and pageSize' = 6]
        productListKey_format
          [where tags = "[]" and order = "[]" and pageNum = 2 and pageSize = 12
             and tags' = "[]" and order' = "[]" and pageNum' = 2 and pageSize' = 12]
  by (simp add: tags_or_all_def Itoa_def utoa.simps digit_def)

text \<open>
  Claim C4, as stated, fails: the key derivation is not injective. No tags and the
  single tag \<open>all\<close> are different descriptors with the same List key and the same Count
  key, since the empty join is replaced by \<open>all\<close> and nothing is escaped.
\<close>

theorem key_collision:
  "([] :: string list) \<noteq> [''all'']
   \<and> productListKey [] ''price'' 1 6 = productListKey [''all''] ''price'' 1 6
   \<and> countKey [] = countKey [''all'']"
  by (simp add: productListKey_def countKey_def)

text \<open>
  Claim C4, amended. On tag lists that joining does not confuse (every tag non-empty
  and free of commas, the list not the single tag \<open>all\<close>), two descriptors that
  differ in a field have different List keys provided the tags contain no colon (the
  order may be any text), and two different tag lists have different Count keys.
\<close>

theorem keys_differ_on_plain_tags:
  assumes "joinable tags1" and "joinable tags2"
  shows "(colon_free tags1 \<and> colon_free tags2
          \<and> (tags1, order1, pageNum1, pageSize1) \<noteq> (tags2, order2, pageNum2, pageSize2)
          \<longrightarrow> productListKey tags1 order1 pageNum1 pageSize1
                \<noteq> productListKey tags2 order2 pageNum2 pageSize2)
       \<and> (tags1 \<noteq> tags2 \<longrightarrow> countKey tags1 \<noteq> countKey tags2)"
  using assms productListKey_inj [of tags1 tags2 order1 pageNum1 pageSize1 order2 pageNum2 pageSize2]
    countKey_inj [of tags1 tags2]
  by blast

theorem keys_differ_on_plain_tags_witness:
  "joinable [''brown''] \<and> joinable [''blue'', ''geek'']
   \<and> colon_free [''brown''] \<and> colon_free [''blue'', ''geek'']
   \<and> productListKey [''brown''] ''price'' 1 6 \<noteq> productListKey [''blue'', ''geek''] ''price'' 1 6
   \<and> countKey [''brown''] \<noteq> countKey [''blue'', ''geek'']"
  using keys_differ_on_plain_tags
          [where ?tags1.0 = "[''brown'']" and ?tags2.0 = "[''blue'', ''geek'']"
             and ?order1.0 = "''price''" and ?order2.0 = "''price''"
             and ?pageNum1.0 = 1 and ?pageNum2.0 = 1 and ?pageSize1.0 = 6 and ?pageSize2.0 = 6]
  by (simp add: joinable_def colon_free_def)

subsection \<open>The metrics recorder\<close>

text \<open>
  Claim C7. Starting from a fresh recorder, after any sequence of \<open>N\<close> hits, \<open>M\<close>
  misses and \<open>K\<close> errors the counters are \<open>N\<close>, \<open>M\<close>, \<open>K\<close> and \<open>N + M + K\<close>, the total
  is the sum of the three, and the snapshot gives the hit ratio \<open>N / (N + M + K) * 100\<close>,
  the average response time \<open>sum d / (N + M + K)\<close>, the average cache time (sum over the
  hits) \<open>/ N\<close> and the average database time (sum over misses and errors) \<open>/ (M + K)\<close>,
  each \<open>0\<close> when its denominator is \<open>0\<close>. Sums and quotients are Go's: \<open>int64\<close>
  arithmetic for counters and durations, \<open>float64\<close> operations for the ratio. The bound
  on the number of calls says that the counters have not passed the largest \<open>int64\<close>.
\<close>

theorem metrics_after_samples:
  assumes small: "length ss < 2 ^ 63"
  shows "(let m = record_all NewCacheMetrics ss;
              snap = GetMetrics fl m;
              N = length (samples_of Hit ss);
              M = length (samples_of Miss ss);
              K = length (samples_of Error ss)
          in length ss = N + M + K
           \<and> totalRequests m = of_nat (N + M + K)
           \<and> cacheHits m = of_nat N \<and> cacheMisses m = of_nat M \<and> cacheErrors m = of_nat K
           \<and> totalRequests m = cacheHits m + cacheMisses m + cacheErrors m
           \<and> HitRatio snap =
                (if N + M + K = 0 then of_int64 fl 0
                 else fmul fl (fdiv fl (of_int64 fl (of_nat N)) (of_int64 fl (of_nat (N + M + K))))
                              (of_int64 fl 100))
           \<and> AvgResponseTime snap =
                (if N + M + K = 0 then 0
                 else go_div (sum_list (durations ss)) (of_nat (N + M + K)))
           \<and> AvgCacheResponseTime snap =
                (if N = 0 then 0
                 else go_div (sum_list (durations (samples_of Hit ss))) (of_nat N))
           \<and> AvgDbResponseTime snap =
                (if M + K = 0 then 0
                 else go_div (sum_list (durations (samples_of Miss ss))
                              + sum_list (durations (samples_of Error ss))) (of_nat (M + K))))"
proof -
  define m where "m = record_all NewCacheMetrics ss"
  define N where "N = length (samples_of Hit ss)"
  define M where "M = length (samples_of Miss ss)"
  define K where "K = length (samples_of Error ss)"
  have len: "length ss = N + M + K"
    unfolding N_def M_def K_def by (rule length_split)
  have tot: "totalRequests m = of_nat (N + M + K)"
    unfolding m_def by (simp add: totalRequests_record_all NewCacheMetrics_def len)
  have hits: "cacheHits m = of_nat N"
    unfolding m_def N_def by (simp add: cacheHits_record_all NewCacheMetrics_def)
  have misses: "cacheMisses m = of_nat M"
    unfolding m_def M_def by (simp add: cacheMisses_record_all NewCacheMetrics_def)
  have errs: "cacheErrors m = of_nat K"
    unfolding m_def K_def by (simp add: cacheErrors_record_all NewCacheMetrics_def)
  have trt: "totalResponseTime m = sum_list (durations ss)"
    unfolding m_def by (simp add: totalResponseTime_record_all NewCacheMetrics_def)
  have crt: "cacheResponseTime m = sum_list (durations (samples_of Hit ss))"
    unfolding m_def by (simp add: cacheResponseTime_record_all NewCacheMetrics_def)
  have drt: "dbResponseTime m = sum_list (durations (samples_of Miss ss)) + sum_list (durations (samples_of Error ss))"
    unfolding m_def by (simp add: dbResponseTime_record_all NewCacheMetrics_def)
  have bounds: "N + M + K < 2 ^ 63" "N < 2 ^ 63" "M + K < 2 ^ 63"
    using small len by simp_all
  have gt_tot: "go_gt0 (totalRequests m) = (0 < N + M + K)"
    unfolding tot by (rule go_gt0_of_nat) (rule bounds)
  have gt_hits: "go_gt0 (cacheHits m) = (0 < N)"
    unfolding hits by (rule go_gt0_of_nat) (rule bounds)
  have db: "cacheMisses m + cacheErrors m = of_nat (M + K)"
    by (simp add: misses errs)
  have gt_db: "go_gt0 (cacheMisses m + cacheErrors m) = (0 < M + K)"
    unfolding db by (rule go_gt0_of_nat) (rule bounds)
  have sum3: "totalRequests m = cacheHits m + cacheMisses m + cacheErrors m"
    by (simp add: tot hits misses errs)
  have hr: "HitRatio (GetMetrics fl m) =
      (if N + M + K = 0 then of_int64 fl 0
       else fmul fl (fdiv fl (of_int64 fl (of_nat N)) (of_int64 fl (of_nat (N + M + K)))) (of_int64 fl 100))"
    by (simp add: GetMetrics_def Let_def gt_tot) (simp add: tot hits)
  have ar: "AvgResponseTime (GetMetrics fl m) =
      (if N + M + K = 0 then 0 else go_div (sum_list (durations ss)) (of_nat (N + M + K)))"
    by (simp add: GetMetrics_def Let_def gt_tot) (simp add: tot trt)
  have acr: "AvgCacheResponseTime (GetMetrics fl m) =
      (if N = 0 then 0 else go_div (sum_list (durations (samples_of Hit ss))) (of_nat N))"
    by (simp add: GetMetrics_def Let_def gt_hits) (simp add: hits crt)
  have adr: "AvgDbResponseTime (GetMetrics fl m) =
      (if M + K = 0 then 0
       else go_div (sum_list (durations (samples_of Miss ss)) + sum_list (durations (samples_of Error ss))) (of_nat (M + K)))"
    by (simp add: GetMetrics_def Let_def gt_db) (simp add: db drt)
  show ?thesis
    unfolding Let_def m_def [symmetric] N_def [symmetric] M_def [symmetric] K_def [symmetric]
    using len tot hits misses errs sum3 hr ar acr adr by blast
qed

theorem metrics_after_samples_witness:
  "length [(Hit, ''List'', 10), (Miss, ''Get'', 30), (Error, ''List'', 5), (Hit, ''Tags'', 20 :: Duration)] < 2 ^ 63
   \<and> totalRequests (record_all NewCacheMetrics
         [(Hit, ''List'', 10), (Miss, ''Get'', 30), (Error, ''List'', 5), (Hit, ''Tags'', 20)]) = 4
   \<and> HitRatio (GetMetrics \<lparr>of_int64 = \<lambda>w. real_of_int (sint w), fdiv = (/), fmul = (*)\<rparr>
         (record_all NewCacheMetrics
           [(Hit, ''List'', 10), (Miss, ''Get'', 30), (Error, ''List'', 5), (Hit, ''Tags'', 20)])) = (50::real)
   \<and> AvgResponseTime (GetMetrics \<lparr>of_int64 = \<lambda>w. real_of_int (sint w), fdiv = (/), fmul = (*)\<rparr>
         (record_all NewCacheMetrics
           [(Hit, ''List'', 10), (Miss, ''Get'', 30), (Error, ''List'', 5), (Hit, ''Tags'', 20)])) = 16
   \<and> AvgCacheResponseTime (GetMetrics \<lparr>of_int64 = \<lambda>w. real_of_int (sint w), fdiv = (/), fmul = (*)\<rparr>
         (record_all NewCacheMetrics
           [(Hit, ''List'', 10), (Miss, ''Get'', 30), (Error, ''List'', 5), (Hit, ''Tags'', 20)])) = 15
   \<and> AvgDbResponseTime (GetMetrics \<lparr>of_int64 = \<lambda>w. real_of_int (sint w), fdiv = (/), fmul = (*)\<rparr>
         (record_all NewCacheMetrics
           [(Hit, ''List'', 10), (Miss, ''Get'', 30), (Error, ''List'', 5), (Hit, ''Tags'', 20)])) = 17"
  using metrics_after_samples
    [of "[(Hit, ''List'', 10), (Miss, ''Get'', 30), (Error, ''List'', 5), (Hit, ''Tags'', 20)]"
        "\<lparr>of_int64 = \<lambda>w. real_of_int (sint w), fdiv = (/), fmul = (*)\<rparr>"]
  by (simp add: Let_def samples_of_def durations_def go_div_def signed_divide_int_def)

subsection \<open>The four reads\<close>

text \<open>
  Claim C1. When every Redis \<open>GET\<close> fails or finds nothing, each of the four reads
  returns what the authoritative service returns, value and error alike: the caller
  sees an error exactly when the authoritative call gives one, and never one of the
  cache's.
\<close>

theorem fallback_returns_authoritative:
  assumes "\<forall>key. fault env (GET key) \<noteq> None \<or> store w key = None"
  shows "fst (CachedService_List env tags order pageNum pageSize w)
           = svc_List (service env) tags order pageNum pageSize
       \<and> fst (CachedService_Count env tags w) = svc_Count (service env) tags
       \<and> fst (CachedService_Get env ident w) = svc_Get (service env) ident
       \<and> fst (CachedService_Tags env w) = svc_Tags (service env)"
proof -
  have miss: "fault env (GET key) \<noteq> None \<or> store w key = None" for key
    using assms by simp
  have "\<not> fst (snd (fst (GetProducts env tags order pageNum pageSize w)))"
    using miss [of "productListKey tags order pageNum pageSize"]
    by (auto simp add: GetProducts_result split: option.splits)
  then have l: "fst (CachedService_List env tags order pageNum pageSize w)
           = svc_List (service env) tags order pageNum pageSize"
    by (simp add: CachedService_List_fallback)
  have "\<not> fst (snd (fst (GetCount env tags w)))"
    using miss [of "countKey tags"] by (auto simp add: GetCount_result split: option.splits)
  then have c: "fst (CachedService_Count env tags w) = svc_Count (service env) tags"
    by (simp add: CachedService_Count_fallback)
  have "\<not> fst (snd (fst (GetProduct env ident w)))"
    using miss [of "productKey ident"] by (auto simp add: GetProduct_result split: option.splits)
  then have g: "fst (CachedService_Get env ident w) = svc_Get (service env) ident"
    by (simp add: CachedService_Get_fallback)
  have "\<not> fst (snd (fst (GetTags env w)))"
    using miss [of tagsKey] by (auto simp add: GetTags_result split: option.splits)
  then have t: "fst (CachedService_Tags env w) = svc_Tags (service env)"
    by (simp add: CachedService_Tags_fallback)
  from l c g t show ?thesis by simp
qed

theorem fallback_returns_authoritative_witness:
  "(\<forall>key. fault (stub_env stub_service redis_down) (GET key) = Some (Failure ''connection refused''))
   \<and> fst (CachedService_List (stub_env stub_service redis_down) [] [] 1 6 world0) = ([sock1], None)
   \<and> fst (CachedService_Count (stub_env stub_service redis_down) [] world0) = (1, None)
   \<and> fst (CachedService_Get (stub_env stub_service redis_down) ''2'' world0)
        = (Sock_zero, Some (Failure ''not found''))
   \<and> fst (CachedService_Tags (stub_env stub_service redis_down) world0) = ([''brown''], None)
   \<and> (\<forall>key. store world0 key = None)
   \<and> fst (CachedService_Get (stub_env stub_service redis_up) ''1'' world0) = (sock1, None)"
  using fallback_returns_authoritative
    [where env = "stub_env stub_service redis_down" and w = world0 and tags = "[]"
       and order = "[]" and pageNum = 1 and pageSize = 6 and ident = "''2''"]
    fallback_returns_authoritative
    [where env = "stub_env stub_service redis_up" and w = world0 and ident = "''1''"]
  by (simp add: stub_env_def stub_service_def redis_down_def redis_up_def world0_def)

text \<open>
  Claim C2. When the Redis \<open>GET\<close> for the derived key succeeds with a stored text
  that deserializes, the read returns exactly the deserialized value with no error,
  and between entry and return the authoritative service is not called at all.
\<close>

theorem hit_skips_authoritative:
  "(fault env (GET (productListKey tags order pageNum pageSize)) = None
      \<and> store w (productListKey tags order pageNum pageSize) = Some valL
      \<and> Unmarshal_products env valL = Inr socks
    \<longrightarrow> fst (CachedService_List env tags order pageNum pageSize w) = (socks, None)
        \<and> calls (new_events w (snd (CachedService_List env tags order pageNum pageSize w))) = [])
   \<and> (fault env (GET (countKey tags)) = None
      \<and> store w (countKey tags) = Some valC
      \<and> Atoi valC = (count, None)
    \<longrightarrow> fst (CachedService_Count env tags w) = (count, None)
        \<and> calls (new_events w (snd (CachedService_Count env tags w))) = [])
   \<and> (fault env (GET (productKey ident)) = None
      \<and> store w (productKey ident) = Some valG
      \<and> Unmarshal_product env valG = Inr sock
    \<longrightarrow> fst (CachedService_Get env ident w) = (sock, None)
        \<and> calls (new_events w (snd (CachedService_Get env ident w))) = [])
   \<and> (fault env (GET tagsKey) = None
      \<and> store w tagsKey = Some valT
      \<and> Unmarshal_tags env valT = Inr ts
    \<longrightarrow> fst (CachedService_Tags env w) = (ts, None)
        \<and> calls (new_events w (snd (CachedService_Tags env w))) = [])"
proof (intro conjI impI)
  assume a: "fault env (GET (productListKey tags order pageNum pageSize)) = None
      \<and> store w (productListKey tags order pageNum pageSize) = Some valL
      \<and> Unmarshal_products env valL = Inr socks"
  then have r: "fst (GetProducts env tags order pageNum pageSize w) = (socks, True, None)"
    by (simp add: GetProducts_result)
  then show "fst (CachedService_List env tags order pageNum pageSize w) = (socks, None)"
    by (simp add: CachedService_List_hit)
  show "calls (new_events w (snd (CachedService_List env tags order pageNum pageSize w))) = []"
    using GetProducts_trace [of env tags order pageNum pageSize w]
      CachedService_List_trace [of env tags order pageNum pageSize w] r
    by (intro calls_new_events_hit [where ?w1.0 = "snd (GetProducts env tags order pageNum pageSize w)"]) simp_all
next
  assume a: "fault env (GET (countKey tags)) = None
      \<and> store w (countKey tags) = Some valC \<and> Atoi valC = (count, None)"
  then have r: "fst (GetCount env tags w) = (count, True, None)"
    by (simp add: GetCount_result)
  then show "fst (CachedService_Count env tags w) = (count, None)"
    by (simp add: CachedService_Count_hit)
  show "calls (new_events w (snd (CachedService_Count env tags w))) = []"
    using GetCount_trace [of env tags w] CachedService_Count_trace [of env tags w] r
    by (intro calls_new_events_hit [where ?w1.0 = "snd (GetCount env tags w)"]) simp_all
next
  assume a: "fault env (GET (productKey ident)) = None
      \<and> store w (productKey ident) = Some valG \<and> Unmarshal_product env valG = Inr sock"
  then have r: "fst (GetProduct env ident w) = (sock, True, None)"
    by (simp add: GetProduct_result)
  then show "fst (CachedService_Get env ident w) = (sock, None)"
    by (simp add: CachedService_Get_hit)
  show "calls (new_events w (snd (CachedService_Get env ident w))) = []"
    using GetProduct_trace [of env ident w] CachedService_Get_trace [of env ident w] r
    by (intro calls_new_events_hit [where ?w1.0 = "snd (GetProduct env ident w)"]) simp_all
next
  assume a: "fault env (GET tagsKey) = None
      \<and> store w tagsKey = Some valT \<and> Unmarshal_tags env valT = Inr ts"
  then have r: "fst (GetTags env w) = (ts, True, None)"
    by (simp add: GetTags_result)
  then show "fst (CachedService_Tags env w) = (ts, None)"
    by (simp add: CachedService_Tags_hit)
  show "calls (new_events w (snd (CachedService_Tags env w))) = []"
    using GetTags_trace [of env w] CachedService_Tags_trace [of env w] r
    by (intro calls_new_events_hit [where ?w1.0 = "snd (GetTags env w)"]) simp_all
qed

theorem hit_skips_authoritative_witness:
  "fst (CachedService_List (stub_env stub_service redis_up) [] [] 1 6 (world0\<lparr>store := warm_store\<rparr>))
     = ([], None)
   \<and> calls (new_events (world0\<lparr>store := warm_store\<rparr>)
        (snd (CachedService_List (stub_env stub_service redis_up) [] [] 1 6
               (world0\<lparr>store := warm_store\<rparr>)))) = []
   \<and> fst (CachedService_Count (stub_env stub_service redis_up) [] (world0\<lparr>store := warm_store\<rparr>))
     = (7, None)
   \<and> fst (CachedService_Get (stub_env stub_service redis_up) ''1'' (world0\<lparr>store := warm_store\<rparr>))
     = (Sock_zero, None)
   \<and> fst (CachedService_Tags (stub_env stub_service redis_up) (world0\<lparr>store := warm_store\<rparr>))
     = ([], None)"
  using hit_skips_authoritative
    [where env = "stub_env stub_service redis_up" and w = "world0\<lparr>store := warm_store\<rparr>"
       and tags = "[]" and order = "[]" and pageNum = 1 and pageSize = 6
       and valL = "''[]''" and socks = "[]" and valC = "''7''" and count = 7
       and ident = "''1''" and valG = "''{}''" and sock = Sock_zero
       and valT = "''[]''" and ts = "[]"]
  by (simp add: stub_defs productListKey_def countKey_def productKey_def tagsKey_def
        print_verb_def atoi_defs)

text \<open>
  Claim C3. When the stored text for the key fails to deserialize (the codec rejects
  it; for a count, \<open>strconv.Atoi\<close> does), the cache read reports not-found and no
  error, a \<open>DEL\<close> of that key is issued, and the read returns what the authoritative
  service returns, so an error reaches the caller only if that call gives one. Nothing
  is assumed about the \<open>DEL\<close>: it may fail and the result is the same. When it does not
  fail the key is absent afterwards.
\<close>

theorem corrupt_entry_recovery:
  "(fault env (GET (productListKey tags order pageNum pageSize)) = None \<and> store w (productListKey tags order pageNum pageSize) = Some valL \<and> Unmarshal_products env valL = Inl e
    \<longrightarrow> fst (GetProducts env tags order pageNum pageSize w) = ([], False, None)
        \<and> DEL (productListKey tags order pageNum pageSize) \<in> set (redis_cmds (new_events w (snd (CachedService_List env tags order pageNum pageSize w))))
        \<and> fst (CachedService_List env tags order pageNum pageSize w) = svc_List (service env) tags order pageNum pageSize
        \<and> (fault env (DEL (productListKey tags order pageNum pageSize)) = None \<longrightarrow> store (snd (CachedService_List env tags order pageNum pageSize w)) (productListKey tags order pageNum pageSize) = None))
   \<and> (fault env (GET (countKey tags)) = None \<and> store w (countKey tags) = Some valC \<and> snd (Atoi valC) \<noteq> None
    \<longrightarrow> fst (GetCount env tags w) = (0, False, None)
        \<and> DEL (countKey tags) \<in> set (redis_cmds (new_events w (snd (CachedService_Count env tags w))))
        \<and> fst (CachedService_Count env tags w) = svc_Count (service env) tags
        \<and> (fault env (DEL (countKey tags)) = None \<longrightarrow> store (snd (CachedService_Count env tags w)) (countKey tags) = None))
   \<and> (fault env (GET (productKey ident)) = None \<and> store w (productKey ident) = Some valG \<and> Unmarshal_product env valG = Inl e
    \<longrightarrow> fst (GetProduct env ident w) = (Sock_zero, False, None)
        \<and> DEL (productKey ident) \<in> set (redis_cmds (new_events w (snd (CachedService_Get env ident w))))
        \<and> fst (CachedService_Get env ident w) = svc_Get (service env) ident
        \<and> (fault env (DEL (productKey ident)) = None \<longrightarrow> store (snd (CachedService_Get env ident w)) (productKey ident) = None))
   \<and> (fault env (GET tagsKey) = None \<and> store w tagsKey = Some valT \<and> Unmarshal_tags env valT = Inl e
    \<longrightarrow> fst (GetTags env w) = ([], False, None)
        \<and> DEL tagsKey \<in> set (redis_cmds (new_events w (snd (CachedService_Tags env w))))
        \<and> fst (CachedService_Tags env w) = svc_Tags (service env)
        \<and> (fault env (DEL tagsKey) = None \<longrightarrow> store (snd (CachedService_Tags env w)) tagsKey = None))"
proof (intro conjI impI)
  assume a: "fault env (GET (productListKey tags order pageNum pageSize)) = None \<and> store w (productListKey tags order pageNum pageSize) = Some valL \<and> Unmarshal_products env valL = Inl e"
  then show r: "fst (GetProducts env tags order pageNum pageSize w) = ([], False, None)"
    by (auto simp add: GetProducts_result split: option.splits)
  then show "fst (CachedService_List env tags order pageNum pageSize w) = svc_List (service env) tags order pageNum pageSize"
    by (simp add: CachedService_List_fallback)
  show "DEL (productListKey tags order pageNum pageSize) \<in> set (redis_cmds (new_events w (snd (CachedService_List env tags order pageNum pageSize w))))"
  proof -
    from a r GetProducts_trace [of env tags order pageNum pageSize w]
    obtain e1 where e1: "trace (snd (GetProducts env tags order pageNum pageSize w)) = trace w @ e1" "DEL (productListKey tags order pageNum pageSize) \<in> set (redis_cmds e1)"
      by auto
    from CachedService_List_trace [of env tags order pageNum pageSize w]
    obtain e2 where e2: "trace (snd (CachedService_List env tags order pageNum pageSize w)) = trace (snd (GetProducts env tags order pageNum pageSize w)) @ e2"
      by blast
    from e1 e2 show ?thesis by (rule DEL_in_new_events)
  qed
  show "store (snd (CachedService_List env tags order pageNum pageSize w)) (productListKey tags order pageNum pageSize) = None" if "fault env (DEL (productListKey tags order pageNum pageSize)) = None"
    using a r that by (simp add: CachedService_List_store GetProducts_purged)
next
  assume a: "fault env (GET (countKey tags)) = None \<and> store w (countKey tags) = Some valC \<and> snd (Atoi valC) \<noteq> None"
  then show r: "fst (GetCount env tags w) = (0, False, None)"
    by (auto simp add: GetCount_result split: option.splits)
  then show "fst (CachedService_Count env tags w) = svc_Count (service env) tags"
    by (simp add: CachedService_Count_fallback)
  show "DEL (countKey tags) \<in> set (redis_cmds (new_events w (snd (CachedService_Count env tags w))))"
  proof -
    from a r GetCount_trace [of env tags w]
    obtain e1 where e1: "trace (snd (GetCount env tags w)) = trace w @ e1" "DEL (countKey tags) \<in> set (redis_cmds e1)"
      by auto
    from CachedService_Count_trace [of env tags w]
    obtain e2 where e2: "trace (snd (CachedService_Count env tags w)) = trace (snd (GetCount env tags w)) @ e2"
      by blast
    from e1 e2 show ?thesis by (rule DEL_in_new_events)
  qed
  show "store (snd (CachedService_Count env tags w)) (countKey tags) = None" if "fault env (DEL (countKey tags)) = None"
    using a r that by (simp add: CachedService_Count_store GetCount_purged)
next
  assume a: "fault env (GET (productKey ident)) = None \<and> store w (productKey ident) = Some valG \<and> Unmarshal_product env valG = Inl e"
  then show r: "fst (GetProduct env ident w) = (Sock_zero, False, None)"
    by (auto simp add: GetProduct_result split: option.splits)
  then show "fst (CachedService_Get env ident w) = svc_Get (service env) ident"
    by (simp add: CachedService_Get_fallback)
  show "DEL (productKey ident) \<in> set (redis_cmds (new_events w (snd (CachedService_Get env ident w))))"
  proof -
    from a r GetProduct_trace [of env ident w]
    obtain e1 where e1: "trace (snd (GetProduct env ident w)) = trace w @ e1" "DEL (productKey ident) \<in> set (redis_cmds e1)"
      by auto
    from CachedService_Get_trace [of env ident w]
    obtain e2 where e2: "trace (snd (CachedService_Get env ident w)) = trace (snd (GetProduct env ident w)) @ e2"
      by blast
    from e1 e2 show ?thesis by (rule DEL_in_new_events)
  qed
  show "store (snd (CachedService_Get env ident w)) (productKey ident) = None" if "fault env (DEL (productKey ident)) = None"
    using a r that by (simp add: CachedService_Get_store GetProduct_purged)
next
  assume a: "fault env (GET tagsKey) = None \<and> store w tagsKey = Some valT \<and> Unmarshal_tags env valT = Inl e"
  then show r: "fst (GetTags env w) = ([], False, None)"
    by (auto simp add: GetTags_result split: option.splits)
  then show "fst (CachedService_Tags env w) = svc_Tags (service env)"
    by (simp add: CachedService_Tags_fallback)
  show "DEL tagsKey \<in> set (redis_cmds (new_events w (snd (CachedService_Tags env w))))"
  proof -
    from a r GetTags_trace [of env w]
    obtain e1 where e1: "trace (snd (GetTags env w)) = trace w @ e1" "DEL tagsKey \<in> set (redis_cmds e1)"
      by auto
    from CachedService_Tags_trace [of env w]
    obtain e2 where e2: "trace (snd (CachedService_Tags env w)) = trace (snd (GetTags env w)) @ e2"
      by blast
    from e1 e2 show ?thesis by (rule DEL_in_new_events)
  qed
  show "store (snd (CachedService_Tags env w)) tagsKey = None" if "fault env (DEL tagsKey) = None"
    using a r that by (simp add: CachedService_Tags_store GetTags_purged)
qed

theorem corrupt_entry_recovery_witness:
  "fst (GetCount (stub_env stub_service redis_no_del) [] (world0\<lparr>store := corrupt_store\<rparr>))
     = (0, False, None)
   \<and> fst (CachedService_Count (stub_env stub_service redis_no_del) [] (world0\<lparr>store := corrupt_store\<rparr>))
     = (1, None)
   \<and> DEL ''catalogue:count:all''
       \<in> set (redis_cmds (new_events (world0\<lparr>store := corrupt_store\<rparr>)
            (snd (CachedService_Count (stub_env stub_service redis_no_del) []
                   (world0\<lparr>store := corrupt_store\<rparr>)))))
   \<and> fst (CachedService_List (stub_env stub_service redis_up) [] [] 1 6
            (world0\<lparr>store := corrupt_store\<rparr>))
     = ([sock1], None)
   \<and> store (snd (CachedService_List (stub_env stub_service redis_up) [] [] 1 6
                    (world0\<lparr>store := corrupt_store\<rparr>)))
        ''catalogue:products:all:order::page:1:size:6'' = None
   \<and> fst (CachedService_Get (stub_env stub_service redis_up) ''1'' (world0\<lparr>store := corrupt_store\<rparr>))
     = (sock1, None)
   \<and> fst (CachedService_Tags (stub_env stub_service redis_up) (world0\<lparr>store := corrupt_store\<rparr>))
     = ([''brown''], None)"
  using corrupt_entry_recovery
    [where env = "stub_env stub_service redis_no_del" and w = "world0\<lparr>store := corrupt_store\<rparr>"
       and tags = "[]" and valC = "''seven''"]
    corrupt_entry_recovery
    [where env = "stub_env stub_service redis_up" and w = "world0\<lparr>store := corrupt_store\<rparr>"
       and tags = "[]" and order = "[]" and pageNum = 1 and pageSize = 6
       and valL = "''[{''" and e = "Failure ''invalid JSON''"
       and ident = "''1''" and valG = "''{oops''" and valT = "''brown''"]
  by (simp add: stub_defs productListKey_def countKey_def productKey_def tagsKey_def
        print_verb_def atoi_defs)

text \<open>
  Claim C6, as stated, fails in its last part: a read can record more than a miss.
  With Redis unreachable and the sock unknown to the authoritative service, one \<open>Get\<close>
  returns the service's error and records a cache error as well as a miss.
\<close>

theorem cache_error_and_authoritative_error:
  "fst (CachedService_Get (stub_env stub_service redis_down) ''2'' world0)
     = (Sock_zero, Some (Failure ''not found''))
   \<and> cacheMisses (metrics (snd (CachedService_Get (stub_env stub_service redis_down) ''2'' world0))) = 1
   \<and> cacheErrors (metrics (snd (CachedService_Get (stub_env stub_service redis_down) ''2'' world0))) = 1
   \<and> totalRequests (metrics (snd (CachedService_Get (stub_env stub_service redis_down) ''2'' world0))) = 2"
  by (simp add: run_defs stub_defs)

text \<open>
  Claim C6, amended. When the authoritative call of a read returns an error, the read
  returns that error unchanged (with the value the service gave), starts no write-back
  goroutine, issues no \<open>SET\<close> and adds no key to the store; it records one miss and no
  hit, and one cache error exactly when the cache read itself had failed.
\<close>

theorem authoritative_error_propagates:
  "(snd (svc_List (service env) tags order pageNum pageSize) = Some e
      \<and> (snd (snd (fst (GetProducts env tags order pageNum pageSize w))) \<noteq> None \<or> \<not> fst (snd (fst (GetProducts env tags order pageNum pageSize w))))
    \<longrightarrow> fst (CachedService_List env tags order pageNum pageSize w) = (fst (svc_List (service env) tags order pageNum pageSize), Some e)
        \<and> goroutines (snd (CachedService_List env tags order pageNum pageSize w)) = goroutines w
        \<and> list_all (\<lambda>c. \<not> is_SET c) (redis_cmds (new_events w (snd (CachedService_List env tags order pageNum pageSize w))))
        \<and> dom (store (snd (CachedService_List env tags order pageNum pageSize w))) \<subseteq> dom (store w)
        \<and> cacheHits (metrics (snd (CachedService_List env tags order pageNum pageSize w))) = cacheHits (metrics w)
        \<and> cacheMisses (metrics (snd (CachedService_List env tags order pageNum pageSize w))) = cacheMisses (metrics w) + 1
        \<and> cacheErrors (metrics (snd (CachedService_List env tags order pageNum pageSize w)))
            = cacheErrors (metrics w) + (if snd (snd (fst (GetProducts env tags order pageNum pageSize w))) = None then 0 else 1))
   \<and> (snd (svc_Count (service env) tags) = Some e
      \<and> (snd (snd (fst (GetCount env tags w))) \<noteq> None \<or> \<not> fst (snd (fst (GetCount env tags w))))
    \<longrightarrow> fst (CachedService_Count env tags w) = (fst (svc_Count (service env) tags), Some e)
        \<and> goroutines (snd (CachedService_Count env tags w)) = goroutines w
        \<and> list_all (\<lambda>c. \<not> is_SET c) (redis_cmds (new_events w (snd (CachedService_Count env tags w))))
        \<and> dom (store (snd (CachedService_Count env tags w))) \<subseteq> dom (store w)
        \<and> cacheHits (metrics (snd (CachedService_Count env tags w))) = cacheHits (metrics w)
        \<and> cacheMisses (metrics (snd (CachedService_Count env tags w))) = cacheMisses (metrics w) + 1
        \<and> cacheErrors (metrics (snd (CachedService_Count env tags w)))
            = cacheErrors (metrics w) + (if snd (snd (fst (GetCount env tags w))) = None then 0 else 1))
   \<and> (snd (svc_Get (service env) ident) = Some e
      \<and> (snd (snd (fst (GetProduct env ident w))) \<noteq> None \<or> \<not> fst (snd (fst (GetProduct env ident w))))
    \<longrightarrow> fst (CachedService_Get env ident w) = (fst (svc_Get (service env) ident), Some e)
        \<and> goroutines (snd (CachedService_Get env ident w)) = goroutines w
        \<and> list_all (\<lambda>c. \<not> is_SET c) (redis_cmds (new_events w (snd (CachedService_Get env ident w))))
        \<and> dom (store (snd (CachedService_Get env ident w))) \<subseteq> dom (store w)
        \<and> cacheHits (metrics (snd (CachedService_Get env ident w))) = cacheHits (metrics w)
        \<and> cacheMisses (metrics (snd (CachedService_Get env ident w))) = cacheMisses (metrics w) + 1
        \<and> cacheErrors (metrics (snd (CachedService_Get env ident w)))
            = cacheErrors (metrics w) + (if snd (snd (fst (GetProduct env ident w))) = None then 0 else 1))
   \<and> (snd (svc_Tags (service env)) = Some e
      \<and> (snd (snd (fst (GetTags env w))) \<noteq> None \<or> \<not> fst (snd (fst (GetTags env w))))
    \<longrightarrow> fst (CachedService_Tags env w) = (fst (svc_Tags (service env)), Some e)
        \<and> goroutines (snd (CachedService_Tags env w)) = goroutines w
        \<and> list_all (\<lambda>c. \<not> is_SET c) (redis_cmds (new_events w (snd (CachedService_Tags env w))))
        \<and> dom (store (snd (CachedService_Tags env w))) \<subseteq> dom (store w)
        \<and> cacheHits (metrics (snd (CachedService_Tags env w))) = cacheHits (metrics w)
        \<and> cacheMisses (metrics (snd (CachedService_Tags env w))) = cacheMisses (metrics w) + 1
        \<and> cacheErrors (metrics (snd (CachedService_Tags env w)))
            = cacheErrors (metrics w) + (if snd (snd (fst (GetTags env w))) = None then 0 else 1))"
proof (intro conjI impI)
  assume a: "snd (svc_List (service env) tags order pageNum pageSize) = Some e
      \<and> (snd (snd (fst (GetProducts env tags order pageNum pageSize w))) \<noteq> None \<or> \<not> fst (snd (fst (GetProducts env tags order pageNum pageSize w))))"
  then show "fst (CachedService_List env tags order pageNum pageSize w) = (fst (svc_List (service env) tags order pageNum pageSize), Some e)"
    by (simp add: CachedService_List_fallback prod_eq_iff)
  from a show "goroutines (snd (CachedService_List env tags order pageNum pageSize w)) = goroutines w"
    by (simp add: CachedService_List_goroutines)
  show "list_all (\<lambda>c. \<not> is_SET c) (redis_cmds (new_events w (snd (CachedService_List env tags order pageNum pageSize w))))"
  proof -
    from GetProducts_trace [of env tags order pageNum pageSize w]
    obtain e1 where e1: "trace (snd (GetProducts env tags order pageNum pageSize w)) = trace w @ e1"
      "set (redis_cmds e1) \<subseteq> {GET (productListKey tags order pageNum pageSize), DEL (productListKey tags order pageNum pageSize)}"
      by blast
    from CachedService_List_trace [of env tags order pageNum pageSize w]
    obtain e2 where e2: "trace (snd (CachedService_List env tags order pageNum pageSize w)) = trace (snd (GetProducts env tags order pageNum pageSize w)) @ e2"
      "redis_cmds e2 = []"
      by blast
    from e1 e2 show ?thesis by (rule no_SET_new_events)
  qed
  show "dom (store (snd (CachedService_List env tags order pageNum pageSize w))) \<subseteq> dom (store w)"
    using GetProducts_store [of env tags order pageNum pageSize w] by (auto simp add: CachedService_List_store split: if_splits)
  from CachedService_List_metrics [of env tags order pageNum pageSize w]
  obtain d1 d where m: "metrics (snd (CachedService_List env tags order pageNum pageSize w)) =
     (case snd (snd (fst (GetProducts env tags order pageNum pageSize w))) of
        Some e \<Rightarrow> RecordCacheMiss ''List'' d (RecordCacheError ''List'' d1 (metrics w))
      | None \<Rightarrow> if fst (snd (fst (GetProducts env tags order pageNum pageSize w))) then RecordCacheHit ''List'' d (metrics w)
                else RecordCacheMiss ''List'' d (metrics w))"
    by blast
  show "cacheHits (metrics (snd (CachedService_List env tags order pageNum pageSize w))) = cacheHits (metrics w)"
    and "cacheMisses (metrics (snd (CachedService_List env tags order pageNum pageSize w))) = cacheMisses (metrics w) + 1"
    and "cacheErrors (metrics (snd (CachedService_List env tags order pageNum pageSize w)))
            = cacheErrors (metrics w) + (if snd (snd (fst (GetProducts env tags order pageNum pageSize w))) = None then 0 else 1)"
    using a by (auto simp add: m record_defs split: option.splits)
next
  assume a: "snd (svc_Count (service env) tags) = Some e
      \<and> (snd (snd (fst (GetCount env tags w))) \<noteq> None \<or> \<not> fst (snd (fst (GetCount env tags w))))"
  then show "fst (CachedService_Count env tags w) = (fst (svc_Count (service env) tags), Some e)"
    by (simp add: CachedService_Count_fallback prod_eq_iff)
  from a show "goroutines (snd (CachedService_Count env tags w)) = goroutines w"
    by (simp add: CachedService_Count_goroutines)
  show "list_all (\<lambda>c. \<not> is_SET c) (redis_cmds (new_events w (snd (CachedService_Count env tags w))))"
  proof -
    from GetCount_trace [of env tags w]
    obtain e1 where e1: "trace (snd (GetCount env tags w)) = trace w @ e1"
      "set (redis_cmds e1) \<subseteq> {GET (countKey tags), DEL (countKey tags)}"
      by blast
    from CachedService_Count_trace [of env tags w]
    obtain e2 where e2: "trace (snd (CachedService_Count env tags w)) = trace (snd (GetCount env tags w)) @ e2"
      "redis_cmds e2 = []"
      by blast
    from e1 e2 show ?thesis by (rule no_SET_new_events)
  qed
  show "dom (store (snd (CachedService_Count env tags w))) \<subseteq> dom (store w)"
    using GetCount_store [of env tags w] by (auto simp add: CachedService_Count_store split: if_splits)
  from CachedService_Count_metrics [of env tags w]
  obtain d1 d where m: "metrics (snd (CachedService_Count env tags w)) =
     (case snd (snd (fst (GetCount env tags w))) of
        Some e \<Rightarrow> RecordCacheMiss ''Count'' d (RecordCacheError ''Count'' d1 (metrics w))
      | None \<Rightarrow> if fst (snd (fst (GetCount env tags w))) then RecordCacheHit ''Count'' d (metrics w)
                else RecordCacheMiss ''Count'' d (metrics w))"
    by blast
  show "cacheHits (metrics (snd (CachedService_Count env tags w))) = cacheHits (metrics w)"
    and "cacheMisses (metrics (snd (CachedService_Count env tags w))) = cacheMisses (metrics w) + 1"
    and "cacheErrors (metrics (snd (CachedService_Count env tags w)))
            = cacheErrors (metrics w) + (if snd (snd (fst (GetCount env tags w))) = None then 0 else 1)"
    using a by (auto simp add: m record_defs split: option.splits)
next
  assume a: "snd (svc_Get (service env) ident) = Some e
      \<and> (snd (snd (fst (GetProduct env ident w))) \<noteq> None \<or> \<not> fst (snd (fst (GetProduct env ident w))))"
  then show "fst (CachedService_Get env ident w) = (fst (svc_Get (service env) ident), Some e)"
    by (simp add: CachedService_Get_fallback prod_eq_iff)
  from a show "goroutines (snd (CachedService_Get env ident w)) = goroutines w"
    by (simp add: CachedService_Get_goroutines)
  show "list_all (\<lambda>c. \<not> is_SET c) (redis_cmds (new_events w (snd (CachedService_Get env ident w))))"
  proof -
    from GetProduct_trace [of env ident w]
    obtain e1 where e1: "trace (snd (GetProduct env ident w)) = trace w @ e1"
      "set (redis_cmds e1) \<subseteq> {GET (productKey ident), DEL (productKey ident)}"
      by blast
    from CachedService_Get_trace [of env ident w]
    obtain e2 where e2: "trace (snd (CachedService_Get env ident w)) = trace (snd (GetProduct env ident w)) @ e2"
      "redis_cmds e2 = []"
      by blast
    from e1 e2 show ?thesis by (rule no_SET_new_events)
  qed
  show "dom (store (snd (CachedService_Get env ident w))) \<subseteq> dom (store w)"
    using GetProduct_store [of env ident w] by (auto simp add: CachedService_Get_store split: if_splits)
  from CachedService_Get_metrics [of env ident w]
  obtain d1 d where m: "metrics (snd (CachedService_Get env ident w)) =
     (case snd (snd (fst (GetProduct env ident w))) of
        Some e \<Rightarrow> RecordCacheMiss ''Get'' d (RecordCacheError ''Get'' d1 (metrics w))
      | None \<Rightarrow> if fst (snd (fst (GetProduct env ident w))) then RecordCacheHit ''Get'' d (metrics w)
                else RecordCacheMiss ''Get'' d (metrics w))"
    by blast
  show "cacheHits (metrics (snd (CachedService_Get env ident w))) = cacheHits (metrics w)"
    and "cacheMisses (metrics (snd (CachedService_Get env ident w))) = cacheMisses (metrics w) + 1"
    and "cacheErrors (metrics (snd (CachedService_Get env ident w)))
            = cacheErrors (metrics w) + (if snd (snd (fst (GetProduct env ident w))) = None then 0 else 1)"
    using a by (auto simp add: m record_defs split: option.splits)
next
  assume a: "snd (svc_Tags (service env)) = Some e
      \<and> (snd (snd (fst (GetTags env w))) \<noteq> None \<or> \<not> fst (snd (fst (GetTags env w))))"
  then show "fst (CachedService_Tags env w) = (fst (svc_Tags (service env)), Some e)"
    by (simp add: CachedService_Tags_fallback prod_eq_iff)
  from a show "goroutines (snd (CachedService_Tags env w)) = goroutines w"
    by (simp add: CachedService_Tags_goroutines)
  show "list_all (\<lambda>c. \<not> is_SET c) (redis_cmds (new_events w (snd (CachedService_Tags env w))))"
  proof -
    from GetTags_trace [of env w]
    obtain e1 where e1: "trace (snd (GetTags env w)) = trace w @ e1"
      "set (redis_cmds e1) \<subseteq> {GET tagsKey, DEL tagsKey}"
      by blast
    from CachedService_Tags_trace [of env w]
    obtain e2 where e2: "trace (snd (CachedService_Tags env w)) = trace (snd (GetTags env w)) @ e2"
      "redis_cmds e2 = []"
      by blast
    from e1 e2 show ?thesis by (rule no_SET_new_events)
  qed
  show "dom (store (snd (CachedService_Tags env w))) \<subseteq> dom (store w)"
    using GetTags_store [of env w] by (auto simp add: CachedService_Tags_store split: if_splits)
  from CachedService_Tags_metrics [of env w]
  obtain d1 d where m: "metrics (snd (CachedService_Tags env w)) =
     (case snd (snd (fst (GetTags env w))) of
        Some e \<Rightarrow> RecordCacheMiss ''Tags'' d (RecordCacheError ''Tags'' d1 (metrics w))
      | None \<Rightarrow> if fst (snd (fst (GetTags env w))) then RecordCacheHit ''Tags'' d (metrics w)
                else RecordCacheMiss ''Tags'' d (metrics w))"
    by blast
  show "cacheHits (metrics (snd (CachedService_Tags env w))) = cacheHits (metrics w)"
    and "cacheMisses (metrics (snd (CachedService_Tags env w))) = cacheMisses (metrics w) + 1"
    and "cacheErrors (metrics (snd (CachedService_Tags env w)))
            = cacheErrors (metrics w) + (if snd (snd (fst (GetTags env w))) = None then 0 else 1)"
    using a by (auto simp add: m record_defs split: option.splits)
qed

theorem authoritative_error_propagates_witness:
  "fst (CachedService_Get (stub_env stub_service redis_up) ''2'' world0)
     = (Sock_zero, Some (Failure ''not found''))
   \<and> goroutines (snd (CachedService_Get (stub_env stub_service redis_up) ''2'' world0)) = []
   \<and> redis_cmds (new_events world0 (snd (CachedService_Get (stub_env stub_service redis_up) ''2'' world0)))
       = [GET ''catalogue:product:2'']
   \<and> cacheMisses (metrics (snd (CachedService_Get (stub_env stub_service redis_up) ''2'' world0))) = 1
   \<and> cacheErrors (metrics (snd (CachedService_Get (stub_env stub_service redis_up) ''2'' world0))) = 0
   \<and> totalRequests (metrics (snd (CachedService_Get (stub_env stub_service redis_up) ''2'' world0))) = 1"
  using authoritative_error_propagates
    [where env = "stub_env stub_service redis_up" and w = world0 and ident = "''2''"
       and e = "Failure ''not found''"]
  by (simp add: run_defs stub_defs)

text \<open>
  Claim C10. A read whose cache read returns an error and whose authoritative call
  succeeds returns the authoritative value and calls the recorder twice: the total
  grows by 2, cache errors by 1, misses by 1, hits by 0, and the counter of the
  operation by 2.
\<close>

theorem cache_error_counts_twice:
  "(snd (snd (fst (GetProducts env tags order pageNum pageSize w))) \<noteq> None \<and> snd (svc_List (service env) tags order pageNum pageSize) = None
    \<longrightarrow> fst (CachedService_List env tags order pageNum pageSize w) = (fst (svc_List (service env) tags order pageNum pageSize), None)
        \<and> totalRequests (metrics (snd (CachedService_List env tags order pageNum pageSize w))) = totalRequests (metrics w) + 2
        \<and> cacheErrors (metrics (snd (CachedService_List env tags order pageNum pageSize w))) = cacheErrors (metrics w) + 1
        \<and> cacheMisses (metrics (snd (CachedService_List env tags order pageNum pageSize w))) = cacheMisses (metrics w) + 1
        \<and> cacheHits (metrics (snd (CachedService_List env tags order pageNum pageSize w))) = cacheHits (metrics w)
        \<and> listRequests (metrics (snd (CachedService_List env tags order pageNum pageSize w))) = listRequests (metrics w) + 2)
   \<and> (snd (snd (fst (GetCount env tags w))) \<noteq> None \<and> snd (svc_Count (service env) tags) = None
    \<longrightarrow> fst (CachedService_Count env tags w) = (fst (svc_Count (service env) tags), None)
        \<and> totalRequests (metrics (snd (CachedService_Count env tags w))) = totalRequests (metrics w) + 2
        \<and> cacheErrors (metrics (snd (CachedService_Count env tags w))) = cacheErrors (metrics w) + 1
        \<and> cacheMisses (metrics (snd (CachedService_Count env tags w))) = cacheMisses (metrics w) + 1
        \<and> cacheHits (metrics (snd (CachedService_Count env tags w))) = cacheHits (metrics w)
        \<and> countRequests (metrics (snd (CachedService_Count env tags w))) = countRequests (metrics w) + 2)
   \<and> (snd (snd (fst (GetProduct env ident w))) \<noteq> None \<and> snd (svc_Get (service env) ident) = None
    \<longrightarrow> fst (CachedService_Get env ident w) = (fst (svc_Get (service env) ident), None)
        \<and> totalRequests (metrics (snd (CachedService_Get env ident w))) = totalRequests (metrics w) + 2
        \<and> cacheErrors (metrics (snd (CachedService_Get env ident w))) = cacheErrors (metrics w) + 1
        \<and> cacheMisses (metrics (snd (CachedService_Get env ident w))) = cacheMisses (metrics w) + 1
        \<and> cacheHits (metrics (snd (CachedService_Get env ident w))) = cacheHits (metrics w)
        \<and> getRequests (metrics (snd (CachedService_Get env ident w))) = getRequests (metrics w) + 2)
   \<and> (snd (snd (fst (GetTags env w))) \<noteq> None \<and> snd (svc_Tags (service env)) = None
    \<longrightarrow> fst (CachedService_Tags env w) = (fst (svc_Tags (service env)), None)
        \<and> totalRequests (metrics (snd (CachedService_Tags env w))) = totalRequests (metrics w) + 2
        \<and> cacheErrors (metrics (snd (CachedService_Tags env w))) = cacheErrors (metrics w) + 1
        \<and> cacheMisses (metrics (snd (CachedService_Tags env w))) = cacheMisses (metrics w) + 1
        \<and> cacheHits (metrics (snd (CachedService_Tags env w))) = cacheHits (metrics w)
        \<and> tagsRequests (metrics (snd (CachedService_Tags env w))) = tagsRequests (metrics w) + 2)"
proof (intro conjI impI)
  assume a: "snd (snd (fst (GetProducts env tags order pageNum pageSize w))) \<noteq> None \<and> snd (svc_List (service env) tags order pageNum pageSize) = None"
  then show "fst (CachedService_List env tags order pageNum pageSize w) = (fst (svc_List (service env) tags order pageNum pageSize), None)"
    by (simp add: CachedService_List_fallback prod_eq_iff)
  from a CachedService_List_metrics [of env tags order pageNum pageSize w]
  obtain d1 d where m: "metrics (snd (CachedService_List env tags order pageNum pageSize w))
      = RecordCacheMiss ''List'' d (RecordCacheError ''List'' d1 (metrics w))"
    by auto
  show "totalRequests (metrics (snd (CachedService_List env tags order pageNum pageSize w))) = totalRequests (metrics w) + 2"
    and "cacheErrors (metrics (snd (CachedService_List env tags order pageNum pageSize w))) = cacheErrors (metrics w) + 1"
    and "cacheMisses (metrics (snd (CachedService_List env tags order pageNum pageSize w))) = cacheMisses (metrics w) + 1"
    and "cacheHits (metrics (snd (CachedService_List env tags order pageNum pageSize w))) = cacheHits (metrics w)"
    and "listRequests (metrics (snd (CachedService_List env tags order pageNum pageSize w))) = listRequests (metrics w) + 2"
    unfolding m by (simp_all add: record_defs)
next
  assume a: "snd (snd (fst (GetCount env tags w))) \<noteq> None \<and> snd (svc_Count (service env) tags) = None"
  then show "fst (CachedService_Count env tags w) = (fst (svc_Count (service env) tags), None)"
    by (simp add: CachedService_Count_fallback prod_eq_iff)
  from a CachedService_Count_metrics [of env tags w]
  obtain d1 d where m: "metrics (snd (CachedService_Count env tags w))
      = RecordCacheMiss ''Count'' d (RecordCacheError ''Count'' d1 (metrics w))"
    by auto
  show "totalRequests (metrics (snd (CachedService_Count env tags w))) = totalRequests (metrics w) + 2"
    and "cacheErrors (metrics (snd (CachedService_Count env tags w))) = cacheErrors (metrics w) + 1"
    and "cacheMisses (metrics (snd (CachedService_Count env tags w))) = cacheMisses (metrics w) + 1"
    and "cacheHits (metrics (snd (CachedService_Count env tags w))) = cacheHits (metrics w)"
    and "countRequests (metrics (snd (CachedService_Count env tags w))) = countRequests (metrics w) + 2"
    unfolding m by (simp_all add: record_defs)
next
  assume a: "snd (snd (fst (GetProduct env ident w))) \<noteq> None \<and> snd (svc_Get (service env) ident) = None"
  then show "fst (CachedService_Get env ident w) = (fst (svc_Get (service env) ident), None)"
    by (simp add: CachedService_Get_fallback prod_eq_iff)
  from a CachedService_Get_metrics [of env ident w]
  obtain d1 d where m: "metrics (snd (CachedService_Get env ident w))
      = RecordCacheMiss ''Get'' d (RecordCacheError ''Get'' d1 (metrics w))"
    by auto
  show "totalRequests (metrics (snd (CachedService_Get env ident w))) = totalRequests (metrics w) + 2"
    and "cacheErrors (metrics (snd (CachedService_Get env ident w))) = cacheErrors (metrics w) + 1"
    and "cacheMisses (metrics (snd (CachedService_Get env ident w))) = cacheMisses (metrics w) + 1"
    and "cacheHits (metrics (snd (CachedService_Get env ident w))) = cacheHits (metrics w)"
    and "getRequests (metrics (snd (CachedService_Get env ident w))) = getRequests (metrics w) + 2"
    unfolding m by (simp_all add: record_defs)
next
  assume a: "snd (snd (fst (GetTags env w))) \<noteq> None \<and> snd (svc_Tags (service env)) = None"
  then show "fst (CachedService_Tags env w) = (fst (svc_Tags (service env)), None)"
    by (simp add: CachedService_Tags_fallback prod_eq_iff)
  from a CachedService_Tags_metrics [of env w]
  obtain d1 d where m: "metrics (snd (CachedService_Tags env w))
      = RecordCacheMiss ''Tags'' d (RecordCacheError ''Tags'' d1 (metrics w))"
    by auto
  show "totalRequests (metrics (snd (CachedService_Tags env w))) = totalRequests (metrics w) + 2"
    and "cacheErrors (metrics (snd (CachedService_Tags env w))) = cacheErrors (metrics w) + 1"
    and "cacheMisses (metrics (snd (CachedService_Tags env w))) = cacheMisses (metrics w) + 1"
    and "cacheHits (metrics (snd (CachedService_Tags env w))) = cacheHits (metrics w)"
    and "tagsRequests (metrics (snd (CachedService_Tags env w))) = tagsRequests (metrics w) + 2"
    unfolding m by (simp_all add: record_defs)
qed

theorem cache_error_counts_twice_witness:
  "fst (CachedService_List (stub_env stub_service redis_down) [] [] 1 6 world0) = ([sock1], None)
   \<and> totalRequests (metrics (snd (CachedService_List (stub_env stub_service redis_down) [] [] 1 6 world0))) = 2
   \<and> cacheErrors (metrics (snd (CachedService_List (stub_env stub_service redis_down) [] [] 1 6 world0))) = 1
   \<and> cacheMisses (metrics (snd (CachedService_List (stub_env stub_service redis_down) [] [] 1 6 world0))) = 1
   \<and> cacheHits (metrics (snd (CachedService_List (stub_env stub_service redis_down) [] [] 1 6 world0))) = 0
   \<and> listRequests (metrics (snd (CachedService_List (stub_env stub_service redis_down) [] [] 1 6 world0))) = 2
   \<and> tagsRequests (metrics (snd (CachedService_Tags (stub_env stub_service redis_down) world0))) = 2"
  using cache_error_counts_twice
    [where env = "stub_env stub_service redis_down" and w = world0
       and tags = "[]" and order = "[]" and pageNum = 1 and pageSize = 6 and ident = "''1''"]
  by (simp add: stub_defs GetProducts_result GetCount_result GetProduct_result GetTags_result
        NewCacheMetrics_def)

subsection \<open>The cache warmer\<close>

text \<open>
  Claim C9, as stated, fails: a failed item does not end its phase. With a service on
  which the first listing fails, the listings phase still fetches the six listings after
  it (and their counts); with a first page of two socks of which the first is unknown,
  the products phase still fetches and writes the second.
\<close>

theorem warming_goes_on_after_a_failure:
  "snd (svc_List flaky_service [] [] 1 6) = Some (Failure ''db timeout'')
   \<and> calls (new_events world0 (warmProductListings (stub_env flaky_service redis_up) world0))
       = [ListCall [] [] 1 6,
          ListCall [] [] 1 12, CountCall [],
          ListCall [] ''price'' 1 6, CountCall [],
          ListCall [] ''name'' 1 6, CountCall [],
          ListCall [''brown''] [] 1 6, CountCall [''brown''],
          ListCall [''blue''] [] 1 6, CountCall [''blue''],
          ListCall [''geek''] [] 1 6, CountCall [''geek'']]
   \<and> snd (svc_Get flaky_service ''2'') = Some (Failure ''not found'')
   \<and> calls (new_events world0 (warmIndividualProducts (stub_env flaky_service redis_up) world0))
       = [ListCall [] [] 1 10, GetCall ''2'', GetCall ''1'']
   \<and> redis_cmds (new_events world0 (warmIndividualProducts (stub_env flaky_service redis_up) world0))
       = [SET ''catalogue:product:1'' ''{}'' ttl]"
  by (simp add: warm_defs run_defs stub_defs flaky_service_def sock2_def atoi_defs)

text \<open>
  Claim C9, amended. \<open>WarmCache\<close> starts the three phases as goroutines of their own,
  whatever happens in any of them, and what a phase does is the same from every world,
  so in whatever state the other phases leave it. A failed item is logged and only the
  rest of that item is skipped: the listings phase goes through every listing of its
  table in order, and for each one does exactly the expected steps of that listing (no
  write after a failed fetch, no count after a failed write); the products phase, once
  its first page is fetched, goes through every product of the page and does exactly
  the expected steps of that product, then reports the number of products written. A
  failed count fetch or count write is not logged by the warmer, and the listing is
  logged as completed. A phase ends early only where nothing is left: the tags phase
  after its single item, the products phase when the fetch of its first page fails.
\<close>

theorem warming_skips_only_the_failed_item:
  "goroutines (WarmCache env w)
     = goroutines w @ [WarmTagsTask, WarmProductListingsTask, WarmIndividualProductsTask]
   \<and> warming_view (new_events w (warmTags env w)) = expected_tags_steps env
   \<and> warming_view (new_events w (warmProductListings env w))
       = concat (map (expected_listing_steps env) listings)
         @ [Logged [(''cache_warming'', LStr ''listings_completed'')]]
   \<and> warming_view (new_events w (warmIndividualProducts env w)) = expected_products_steps env"
  by (simp add: warmTags_view warmProductListings_view warmIndividualProducts_view
        WarmCache_def Let_def world_ops)

theorem warming_skips_only_the_failed_item_witness:
  "warming_view (new_events world0 (warmProductListings (stub_env patchy_service redis_patchy) world0))
     = [Call (ListCall [] [] 1 6),
        Logged [(''cache_warming'', LStr ''listing_error''), (''error'', LErr (Failure ''db timeout'')),
                (''tags'', LStrs [])],
        Call (ListCall [] [] 1 12),
        Redis (SET ''catalogue:products:all:order::page:1:size:12'' ''[]'' ttl),
        Call (CountCall []),
        Redis (SET ''catalogue:count:all'' ''3'' ttl),
        Logged [(''cache_warming'', LStr ''listing_completed''), (''tags'', LStrs []),
                (''order'', LStr []), (''pageNum'', LInt 1), (''pageSize'', LInt 12),
                (''count'', LInt 3)],
        Call (ListCall [] ''price'' 1 6),
        Redis (SET ''catalogue:products:all:order:price:page:1:size:6'' ''[]'' ttl),
        Call (CountCall []),
        Redis (SET ''catalogue:count:all'' ''3'' ttl),
        Logged [(''cache_warming'', LStr ''listing_completed''), (''tags'', LStrs []),
                (''order'', LStr ''price''), (''pageNum'', LInt 1), (''pageSize'', LInt 6),
                (''count'', LInt 3)],
        Call (ListCall [] ''name'' 1 6),
        Redis (SET ''catalogue:products:all:order:name:page:1:size:6'' ''[]'' ttl),
        Call (CountCall []),
        Redis (SET ''catalogue:count:all'' ''3'' ttl),
        Logged [(''cache_warming'', LStr ''listing_completed''), (''tags'', LStrs []),
                (''order'', LStr ''name''), (''pageNum'', LInt 1), (''pageSize'', LInt 6),
                (''count'', LInt 3)],
        Call (ListCall [''brown''] [] 1 6),
        Redis (SET ''catalogue:products:brown:order::page:1:size:6'' ''[]'' ttl),
        Call (CountCall [''brown'']),
        Redis (SET ''catalogue:count:brown'' ''3'' ttl),
        Logged [(''cache_warming'', LStr ''listing_completed''), (''tags'', LStrs [''brown'']),
                (''order'', LStr []), (''pageNum'', LInt 1), (''pageSize'', LInt 6),
                (''count'', LInt 3)],
        Call (ListCall [''blue''] [] 1 6),
        Redis (SET ''catalogue:products:blue:order::page:1:size:6'' ''[]'' ttl),
        Call (CountCall [''blue'']),
        Logged [(''cache_warming'', LStr ''listing_completed''), (''tags'', LStrs [''blue'']),
                (''order'', LStr []), (''pageNum'', LInt 1), (''pageSize'', LInt 6),
                (''count'', LInt 3)],
        Call (ListCall [''geek''] [] 1 6),
        Redis (SET ''catalogue:products:geek:order::page:1:size:6'' ''[]'' ttl),
        Logged [(''cache_warming'', LStr ''listing_cache_error''),
                (''error'', LErr (Failure ''i/o timeout'')), (''tags'', LStrs [''geek''])],
        Logged [(''cache_warming'', LStr ''listings_completed'')]]
   \<and> warming_view (new_events world0 (warmIndividualProducts (stub_env patchy_service redis_patchy) world0))
     = [Call (ListCall [] [] 1 10),
        Call (GetCall ''2''),
        Logged [(''cache_warming'', LStr ''product_error''), (''error'', LErr (Failure ''not found'')),
                (''id'', LStr ''2'')],
        Call (GetCall ''1''),
        Redis (SET ''catalogue:product:1'' ''{}'' ttl),
        Logged [(''cache_warming'', LStr ''product_cache_error''),
                (''error'', LErr (Failure ''i/o timeout'')), (''id'', LStr ''1'')],
        Call (GetCall ''3''),
        Redis (SET ''catalogue:product:3'' ''{}'' ttl),
        Logged [(''cache_warming'', LStr ''products_completed''), (''warmed'', LInt 1),
                (''total'', LInt 3)]]
   \<and> warming_view (new_events world0 (warmTags (stub_env patchy_service redis_patchy) world0))
     = [Call TagsCall,
        Redis (SET ''catalogue:tags:all'' ''[]'' ttl),
        Logged [(''cache_warming'', LStr ''tags_completed''), (''count'', LInt 2)]]
   \<and> warming_view (new_events world0 (warmTags (stub_env patchy_service redis_down) world0))
     = [Call TagsCall,
        Redis (SET ''catalogue:tags:all'' ''[]'' ttl),
        Logged [(''cache_warming'', LStr ''tags_cache_error''),
                (''error'', LErr (Failure ''connection refused''))]]"
  using warming_skips_only_the_failed_item [where env = "stub_env patchy_service redis_patchy" and w = world0]
    warming_skips_only_the_failed_item [where env = "stub_env patchy_service redis_down" and w = world0]
  by (simp add: expected_listing_steps.simps expected_products_steps_def expected_product_steps_def
        expected_tags_steps_def product_written_def listings_def patchy_service_def
        stub_env_def redis_down_def sock1_def sock2_def sock3_def Sock_zero_def
        productListKey_def countKey_def productKey_def tagsKey_def print_verb_def atoi_defs)

subsection \<open>Serialized values\<close>

text \<open>
  Claim C8, as stated, fails for tags lists: \<open>json.Marshal\<close> writes every byte that is
  not part of well-formed UTF-8 as the replacement character, so two different tags
  lists get the same text and the same cache entry, and reading back cannot return both:
  the tags list written is read back found, and different.
\<close>

theorem invalid_bytes_share_their_text:
  "[[CHR 0xFF]] \<noteq> [[CHR 0xFE]]
   \<and> json_Marshal_tags [[CHR 0xFF]]
       = Inr ([CHR ''['', CHR 0x22, CHR 0x5C] @ ''ufffd'' @ [CHR 0x22, CHR '']''])
   \<and> json_Marshal_tags [[CHR 0xFE]] = json_Marshal_tags [[CHR 0xFF]]
   \<and> fst (SetTags json_env [[CHR 0xFF]] world0) = None
   \<and> store (snd (SetTags json_env [[CHR 0xFF]] world0)) tagsKey
       = store (snd (SetTags json_env [[CHR 0xFE]] world0)) tagsKey
   \<and> fst (GetTags json_env (snd (SetTags json_env [[CHR 0xFF]] world0)))
       = ([[CHR 0xEF, CHR 0xBF, CHR 0xBD]], True, None)"
  by (simp add: json_defs json_env_def stub_defs SetTags_def client_Set_def world_ops Let_def
        GetTags_result json_Unmarshal_tags_def checkValid_def isSpace_def begin_value_def
        maxNestingDepth_def is_hex_def is_digit_def hex_val_def IsSurrogate_def EncodeRune_examples
        RuneError_def into_strings_def tagsKey_def)

text \<open>
  Claim C8, amended. The decimal text of a count parses to the count, for every \<open>int\<close>,
  and a count written by \<open>SetCount\<close> and read by \<open>GetCount\<close> comes back found and
  equal. The text \<open>json.Marshal\<close> writes for a product list, a product or a tags list is
  read by \<open>json.Unmarshal\<close> as the value with every string in it as the encoder keeps
  it, and so a value written by its \<open>Set\<close> method and read by its \<open>Get\<close> method under
  the same key comes back found and equal to the original when the strings of the value
  are valid UTF-8, and otherwise found with U+FFFD in the place of each byte that is
  not. (No expiry and nothing else between the two calls; the two client calls succeed.
  A product is the record the specification describes.)
\<close>

theorem stored_value_read_back:
  assumes "json_codec env"
  shows
  "Atoi (Itoa count) = (count, None)
   \<and> (fault env (SET (countKey tags) (Itoa count) ttl) = None \<and> fault env (GET (countKey tags)) = None
      \<longrightarrow> fst (GetCount env tags (snd (SetCount env tags count w))) = (count, True, None))
   \<and> (\<exists>data. Marshal_products env products = Inr data
              \<and> Unmarshal_products env data = Inr (map coerce_Sock products))
   \<and> (Marshal_products env products = Inr dataL
        \<and> fault env (SET (productListKey tags order pageNum pageSize) dataL ttl) = None
        \<and> fault env (GET (productListKey tags order pageNum pageSize)) = None
      \<longrightarrow> fst (GetProducts env tags order pageNum pageSize
                 (snd (SetProducts env tags order pageNum pageSize products w)))
            = (map coerce_Sock products, True, None))
   \<and> (list_all ValidSock products \<longrightarrow> map coerce_Sock products = products)
   \<and> (\<exists>data. Marshal_product env product = Inr data
              \<and> Unmarshal_product env data = Inr (coerce_Sock product))
   \<and> (Marshal_product env product = Inr dataG
        \<and> fault env (SET (productKey ident) dataG ttl) = None
        \<and> fault env (GET (productKey ident)) = None
      \<longrightarrow> fst (GetProduct env ident (snd (SetProduct env ident product w)))
            = (coerce_Sock product, True, None))
   \<and> (ValidSock product \<longrightarrow> coerce_Sock product = product)
   \<and> (\<exists>data. Marshal_tags env ts = Inr data
              \<and> Unmarshal_tags env data = Inr (map coerce_utf8 ts))
   \<and> (Marshal_tags env ts = Inr dataT
        \<and> fault env (SET tagsKey dataT ttl) = None \<and> fault env (GET tagsKey) = None
      \<longrightarrow> fst (GetTags env (snd (SetTags env ts w))) = (map coerce_utf8 ts, True, None))
   \<and> (list_all ValidString ts \<longrightarrow> map coerce_utf8 ts = ts)"
proof -
  from assms obtain nilL nils where products:
    "length nils = length products"
    "Marshal_products env products = Inr (Socks_text_as nilL nils products)"
    unfolding json_codec_def by blast
  from assms obtain nilG where product:
    "Marshal_product env product = Inr (Sock_text_as nilG product)"
    unfolding json_codec_def by blast
  from assms obtain nilT where ts:
    "Marshal_tags env ts = Inr (strings_text_as nilT ts)"
    unfolding json_codec_def by blast
  have decoder:
    "Unmarshal_products env = json_Unmarshal_products"
    "Unmarshal_product env = json_Unmarshal_product"
    "Unmarshal_tags env = json_Unmarshal_tags"
    using assms by (simp_all add: json_codec_def)
  have decoded:
    "json_Unmarshal_products (Socks_text_as nilL nils products) = Inr (map coerce_Sock products)"
    "json_Unmarshal_product (Sock_text_as nilG product) = Inr (coerce_Sock product)"
    "json_Unmarshal_tags (strings_text_as nilT ts) = Inr (map coerce_utf8 ts)"
    using products(1) by (simp_all add: Unmarshal_Socks_text Unmarshal_Sock_text Unmarshal_strings_text)
  show ?thesis
    using decoded
    by (auto simp add: Atoi_Itoa GetCount_result GetProducts_result GetProduct_result GetTags_result
          SetCount_store SetProducts_store SetProduct_store SetTags_store
          products(2) product ts decoder
          Valid_products_coerce ValidSock_coerce Valid_tags_coerce)
qed

theorem stored_value_read_back_witness:
  "fst (GetCount json_env [''brown''] (snd (SetCount json_env [''brown''] (- 42) world0)))
       = (- 42, True, None)
   \<and> fst (GetProducts json_env [] [] 1 6 (snd (SetProducts json_env [] [] 1 6 [sock1, sock2] world0)))
       = ([sock1, sock2], True, None)
   \<and> fst (GetProduct json_env ''1'' (snd (SetProduct json_env ''1'' sock1 world0)))
       = (sock1, True, None)
   \<and> fst (GetTags json_env (snd (SetTags json_env [''brown'', ''a<b'', []] world0)))
       = ([''brown'', ''a<b'', []], True, None)
   \<and> store (snd (SetTags json_env_nil [] world0)) tagsKey = Some ''null''
   \<and> fst (GetTags json_env_nil (snd (SetTags json_env_nil [] world0))) = ([], True, None)"
  using stored_value_read_back
    [OF json_env_codec, where w = world0 and count = "- 42" and tags = "[''brown'']"
       and ts = "[''brown'', ''a<b'', []]" and dataT = "strings_text [''brown'', ''a<b'', []]"
       and product = sock1 and ident = "''1''" and dataG = "Sock_text sock1"]
    stored_value_read_back
    [OF json_env_codec, where w = world0 and tags = "[]" and order = "[]" and pageNum = 1
       and pageSize = 6 and products = "[sock1, sock2]" and dataL = "Socks_text [sock1, sock2]"]
    stored_value_read_back
    [OF json_env_nil_codec, where w = world0 and ts = "[]" and dataT = "''null''"]
  by (simp add: json_env_nil_def json_env_def stub_env_def redis_up_def ValidSock_def
        sock1_def sock2_def json_Marshal_products_def json_Marshal_product_def
        json_Marshal_tags_def strings_text_as_def SetTags_store)

end
